theory Spec2Isabelle
  imports Main "HOL-Library.Word"
begin

section \<open>JavaScript values\<close>

text \<open>
  The wire codec works on untyped JavaScript values: what \<^verbatim>\<open>msgpack.decode\<close> returns and
  what \<^verbatim>\<open>MessageSchema.parse\<close> inspects. An object is its list of own properties in
  insertion order. Numbers are restricted to the integers (the only number the client
  itself produces is \<^verbatim>\<open>Date.now()\<close>) plus \<^verbatim>\<open>NaN\<close>, which zod tells apart from a number.
  \<open>JBinary\<close> is a \<^verbatim>\<open>Uint8Array\<close>: an object in zod's eyes, with none of the keys the
  schemas below ask for.
\<close>

type_synonym bytes = "8 word list"

datatype jsvalue =
    JUndefined
  | JNull
  | JBool bool
  | JNumber int
  | JNaN
  | JString string
  | JArray "jsvalue list"
  | JObject "(string \<times> jsvalue) list"
  | JBinary bytes

type_synonym props = "(string \<times> jsvalue) list"

text \<open>\<^verbatim>\<open>data[key]\<close>: a missing property reads as \<^verbatim>\<open>undefined\<close>.\<close>

fun get_prop :: "jsvalue \<Rightarrow> string \<Rightarrow> jsvalue" where
  "get_prop (JObject kvs) k = (case map_of kvs k of Some v \<Rightarrow> v | None \<Rightarrow> JUndefined)"
| "get_prop _ k = JUndefined"

text \<open>\<^verbatim>\<open>key in data\<close>.\<close>

fun has_key :: "jsvalue \<Rightarrow> string \<Rightarrow> bool" where
  "has_key (JObject kvs) k = (map_of kvs k \<noteq> None)"
| "has_key _ k = False"

text \<open>Object spread \<^verbatim>\<open>{...a, ...b}\<close>: the keys of \<open>a\<close> keep their place and take the value
  \<open>b\<close> gives them, the new keys of \<open>b\<close> follow.\<close>

definition spread :: "props \<Rightarrow> props \<Rightarrow> props" where
  "spread a b =
     map (\<lambda>(k, v). (k, case map_of b k of Some w \<Rightarrow> w | None \<Rightarrow> v)) a
     @ filter (\<lambda>(k, v). map_of a k = None) b"

section \<open>The zod schemas of the wire protocol\<close>

text \<open>
  The schema combinators the source uses, as data, and \<open>parse\<close> as their interpreter.
  \<open>ZUuid\<close> is \<^verbatim>\<open>z.string().uuid()\<close>. An object schema is in zod's default mode:
  unknown keys are stripped from the result.
\<close>

datatype zod =
    ZString
  | ZUuid
  | ZNumber
  | ZOptional zod
  | ZEnum "string list"
  | ZLiteral string
  | ZArray zod
  | ZObject "(string \<times> zod) list"
  | ZDiscriminatedUnion string "zod list"
  | ZAnd zod zod

datatype zod_issue =
    invalid_type
  | invalid_literal
  | invalid_union_discriminator
  | invalid_enum_value
  | invalid_string
  | invalid_intersection_types

text \<open>\<^verbatim>\<open>schema.extend({...})\<close>: the shape spread with the augmentation.\<close>

fun extend :: "zod \<Rightarrow> (string \<times> zod) list \<Rightarrow> zod" where
  "extend (ZObject shape) aug =
     ZObject (map (\<lambda>(k, s). (k, case map_of aug k of Some s' \<Rightarrow> s' | None \<Rightarrow> s)) shape
              @ filter (\<lambda>(k, s). map_of shape k = None) aug)"
| "extend s aug = s"

definition is_hex :: "char \<Rightarrow> bool" where
  "is_hex c = (c \<in> set ''0123456789abcdefABCDEF'')"

text \<open>zod 3.23's UUID pattern: 8-4-4-4-12 hexadecimal digits, either case.\<close>

definition is_uuid :: "string \<Rightarrow> bool" where
  "is_uuid s =
     list_all2 (\<lambda>p c. if p = CHR ''-'' then c = CHR ''-'' else is_hex c)
       ''xxxxxxxx-xxxx-xxxx-xxxx-xxxxxxxxxxxx'' s"

text \<open>The first error of a list of results, or all the values.\<close>

fun collect :: "('e + 'a) list \<Rightarrow> 'e + 'a list" where
  "collect [] = Inr []"
| "collect (Inl e # rs) = Inl e"
| "collect (Inr v # rs) = (case collect rs of Inl e \<Rightarrow> Inl e | Inr vs \<Rightarrow> Inr (v # vs))"

text \<open>The literal an option of a discriminated union carries under the discriminator key.\<close>

fun discriminator_of :: "string \<Rightarrow> zod \<Rightarrow> string option" where
  "discriminator_of d (ZObject shape) =
     (case map_of shape d of Some (ZLiteral l) \<Rightarrow> Some l | _ \<Rightarrow> None)"
| "discriminator_of d s = None"

text \<open>zod's \<^verbatim>\<open>mergeValues\<close>, which joins the two results of an intersection: equal
  primitives merge, objects merge key by key, arrays element by element.\<close>

fun mergeValues :: "jsvalue \<Rightarrow> jsvalue \<Rightarrow> jsvalue option"
and merge_shared :: "props \<Rightarrow> props \<Rightarrow> props option"
and merge_items :: "jsvalue list \<Rightarrow> jsvalue list \<Rightarrow> jsvalue list option" where
  "mergeValues (JObject a) (JObject b) =
     (case merge_shared a b of
        None \<Rightarrow> None
      | Some ab \<Rightarrow> Some (JObject (ab @ filter (\<lambda>(k, v). map_of a k = None) b)))"
| "mergeValues (JArray a) (JArray b) =
     (case merge_items a b of None \<Rightarrow> None | Some ab \<Rightarrow> Some (JArray ab))"
| "mergeValues JUndefined b = (if b = JUndefined then Some JUndefined else None)"
| "mergeValues JNull b = (if b = JNull then Some JNull else None)"
| "mergeValues (JBool x) b = (if b = JBool x then Some (JBool x) else None)"
| "mergeValues (JNumber x) b = (if b = JNumber x then Some (JNumber x) else None)"
| "mergeValues (JString x) b = (if b = JString x then Some (JString x) else None)"
| "mergeValues a b = None"
| "merge_shared [] b = Some []"
| "merge_shared ((k, v) # a) b =
     (case map_of b k of
        None \<Rightarrow> map_option (\<lambda>r. (k, v) # r) (merge_shared a b)
      | Some w \<Rightarrow>
          (case mergeValues v w of
             None \<Rightarrow> None
           | Some vw \<Rightarrow> map_option (\<lambda>r. (k, vw) # r) (merge_shared a b)))"
| "merge_items [] [] = Some []"
| "merge_items (x # xs) (y # ys) =
     (case mergeValues x y of
        None \<Rightarrow> None
      | Some xy \<Rightarrow> map_option (\<lambda>r. xy # r) (merge_items xs ys))"
| "merge_items xs ys = None"

fun parse :: "zod \<Rightarrow> jsvalue \<Rightarrow> zod_issue + jsvalue"
and parse_shape :: "(string \<times> zod) list \<Rightarrow> jsvalue \<Rightarrow> zod_issue + props"
and parse_union :: "string \<Rightarrow> zod list \<Rightarrow> jsvalue \<Rightarrow> zod_issue + jsvalue" where
  "parse ZString v = (case v of JString s \<Rightarrow> Inr v | _ \<Rightarrow> Inl invalid_type)"
| "parse ZUuid v =
     (case v of
        JString s \<Rightarrow> if is_uuid s then Inr v else Inl invalid_string
      | _ \<Rightarrow> Inl invalid_type)"
| "parse ZNumber v = (case v of JNumber n \<Rightarrow> Inr v | _ \<Rightarrow> Inl invalid_type)"
| "parse (ZOptional s) v = (if v = JUndefined then Inr JUndefined else parse s v)"
| "parse (ZEnum values) v =
     (case v of
        JString s \<Rightarrow> if s \<in> set values then Inr v else Inl invalid_enum_value
      | _ \<Rightarrow> Inl invalid_type)"
| "parse (ZLiteral l) v = (if v = JString l then Inr v else Inl invalid_literal)"
| "parse (ZArray s) v =
     (case v of
        JArray vs \<Rightarrow>
          (case collect (map (parse s) vs) of Inl i \<Rightarrow> Inl i | Inr ws \<Rightarrow> Inr (JArray ws))
      | _ \<Rightarrow> Inl invalid_type)"
| "parse (ZObject shape) v =
     (case v of
        JObject kvs \<Rightarrow>
          (case parse_shape shape v of Inl i \<Rightarrow> Inl i | Inr out \<Rightarrow> Inr (JObject out))
      | JBinary bs \<Rightarrow>
          (case parse_shape shape v of Inl i \<Rightarrow> Inl i | Inr out \<Rightarrow> Inr (JObject out))
      | _ \<Rightarrow> Inl invalid_type)"
| "parse (ZDiscriminatedUnion d options) v =
     (case v of
        JObject kvs \<Rightarrow> parse_union d options v
      | JBinary bs \<Rightarrow> parse_union d options v
      | _ \<Rightarrow> Inl invalid_type)"
| "parse (ZAnd left right) v =
     (case parse left v of
        Inl i \<Rightarrow> Inl i
      | Inr a \<Rightarrow>
          (case parse right v of
             Inl i \<Rightarrow> Inl i
           | Inr b \<Rightarrow>
               (case mergeValues a b of
                  None \<Rightarrow> Inl invalid_intersection_types
                | Some ab \<Rightarrow> Inr ab)))"
| "parse_shape [] v = Inr []"
| "parse_shape ((k, s) # shape) v =
     (case parse s (get_prop v k) of
        Inl i \<Rightarrow> Inl i
      | Inr w \<Rightarrow>
          (case parse_shape shape v of
             Inl i \<Rightarrow> Inl i
           | Inr rest \<Rightarrow>
               Inr (if w \<noteq> JUndefined \<or> has_key v k then (k, w) # rest else rest)))"
| "parse_union d [] v = Inl invalid_union_discriminator"
| "parse_union d (opt # options) v =
     (case discriminator_of d opt of
        Some l \<Rightarrow> if get_prop v d = JString l then parse opt v else parse_union d options v
      | None \<Rightarrow> parse_union d options v)"


subsection \<open>The message schemas\<close>

definition ConnectionLoginMsgBodySchema :: zod where
  "ConnectionLoginMsgBodySchema =
     ZObject [(''username'', ZString), (''api_key'', ZOptional ZString)]"

definition ConnectionClientErrorMsgBodySchema :: zod where
  "ConnectionClientErrorMsgBodySchema = ZObject [(''message'', ZString)]"

definition ConnectionClosedReasonSchema :: zod where
  "ConnectionClosedReasonSchema =
     ZEnum [''unauthorized'', ''server_error'', ''room_closed'', ''timeout'', ''unknown'']"

definition ConnectionClosedMsgBodySchema :: zod where
  "ConnectionClosedMsgBodySchema =
     ZObject [(''reason'', ConnectionClosedReasonSchema), (''message'', ZString)]"

definition RoomCreateMsgBodySchema :: zod where
  "RoomCreateMsgBodySchema = ZObject [(''name'', ZString), (''password'', ZString)]"

definition RoomJoinMsgBodySchema :: zod where
  "RoomJoinMsgBodySchema = ZObject [(''id'', ZUuid), (''password'', ZString)]"

definition RoomUserRoleSchema :: zod where
  "RoomUserRoleSchema = ZEnum [''host'', ''guest'']"

definition RoomUserSchema :: zod where
  "RoomUserSchema =
     ZObject [(''id'', ZUuid), (''name'', ZString), (''role'', RoomUserRoleSchema)]"

definition RoomStateMsgBodySchema :: zod where
  "RoomStateMsgBodySchema =
     ZObject [(''id'', ZUuid), (''name'', ZString), (''password'', ZString),
              (''users'', ZArray RoomUserSchema)]"

definition RoomDisconnectedReason :: zod where
  "RoomDisconnectedReason = ZEnum [''closed_by_host'', ''unauthorized'', ''server_error'']"

definition RoomDisconnectedMsgBodySchema :: zod where
  "RoomDisconnectedMsgBodySchema = ZObject [(''reason'', RoomDisconnectedReason)]"

definition EmptyMessageBodySchema :: zod where
  "EmptyMessageBodySchema = ZObject []"

text \<open>The options of the union, in the order of the source.\<close>

definition MessageBodyOptions :: "zod list" where
  "MessageBodyOptions =
     [extend ConnectionLoginMsgBodySchema [(''m'', ZLiteral ''connection::login/v1'')],
      extend EmptyMessageBodySchema [(''m'', ZLiteral ''connection::login_ack/v1'')],
      extend EmptyMessageBodySchema [(''m'', ZLiteral ''connection::ping/v1'')],
      extend EmptyMessageBodySchema [(''m'', ZLiteral ''connection::pong/v1'')],
      extend ConnectionClientErrorMsgBodySchema [(''m'', ZLiteral ''connection::client_error/v1'')],
      extend ConnectionClosedMsgBodySchema [(''m'', ZLiteral ''connection::closed/v1'')],
      extend EmptyMessageBodySchema [(''m'', ZLiteral ''connection::keepalive/v1'')],
      extend RoomCreateMsgBodySchema [(''m'', ZLiteral ''room::create/v1'')],
      extend EmptyMessageBodySchema [(''m'', ZLiteral ''room::create_ack/v1'')],
      extend EmptyMessageBodySchema [(''m'', ZLiteral ''room::close/v1'')],
      extend EmptyMessageBodySchema [(''m'', ZLiteral ''room::close_ack/v1'')],
      extend RoomJoinMsgBodySchema [(''m'', ZLiteral ''room::join/v1'')],
      extend EmptyMessageBodySchema [(''m'', ZLiteral ''room::join_ack/v1'')],
      extend EmptyMessageBodySchema [(''m'', ZLiteral ''room::leave/v1'')],
      extend EmptyMessageBodySchema [(''m'', ZLiteral ''room::leave_ack/v1'')],
      extend RoomDisconnectedMsgBodySchema [(''m'', ZLiteral ''room::disconnected/v1'')],
      extend EmptyMessageBodySchema [(''m'', ZLiteral ''room::request_state/v1'')],
      extend RoomStateMsgBodySchema [(''m'', ZLiteral ''room::state/v1'')]]"

definition MessageBodySchema :: zod where
  "MessageBodySchema = ZDiscriminatedUnion ''m'' MessageBodyOptions"

definition MessageMetaSchema :: zod where
  "MessageMetaSchema = ZObject [(''t'', ZNumber)]"

definition MessageSchema :: zod where
  "MessageSchema = ZAnd MessageMetaSchema MessageBodySchema"

section \<open>The codec of the message channel\<close>

text \<open>
  \<^verbatim>\<open>msgpack.encode\<close> and \<^verbatim>\<open>msgpack.decode\<close> belong to a library: the codec takes them as
  parameters. Either may throw; the thrown error is the \<open>Inl\<close> of the result.
\<close>

datatype decode_error =
    DecodeError string
  | ZodError zod_issue

type_synonym msgpack_decode = "bytes \<Rightarrow> string + jsvalue"
type_synonym msgpack_encode = "jsvalue \<Rightarrow> string + bytes"

text \<open>\<^verbatim>\<open>encodeMessage\<close>: \<open>now\<close> is the value of \<^verbatim>\<open>Date.now()\<close>.\<close>

definition encodeMessage :: "msgpack_encode \<Rightarrow> int \<Rightarrow> props \<Rightarrow> string + bytes" where
  "encodeMessage encode now body = encode (JObject (spread [(''t'', JNumber now)] body))"

definition decodeMessage :: "msgpack_decode \<Rightarrow> bytes \<Rightarrow> decode_error + jsvalue" where
  "decodeMessage decode data =
     (case decode data of
        Inl e \<Rightarrow> Inl (DecodeError e)
      | Inr decoded \<Rightarrow>
          (case parse MessageSchema decoded of
             Inl i \<Rightarrow> Inl (ZodError i)
           | Inr message \<Rightarrow> Inr message))"


section \<open>The message channel\<close>

text \<open>
  \<^verbatim>\<open>MessageChannel\<close> owns a WebSocket and one flag. The socket is the environment: its
  events are the inputs of the channel, and what the channel does to the outside (events
  dispatched to its listeners, log lines, calls on the socket) is returned as a list of
  outputs, oldest first.
\<close>

record MessageChannel =
  "open" :: bool

text \<open>\<^verbatim>\<open>evt.data\<close> of a socket message: a \<^verbatim>\<open>Uint8Array\<close>, a string, or another object
  (a \<^verbatim>\<open>Blob\<close>, an \<^verbatim>\<open>ArrayBuffer\<close>).\<close>

datatype ws_data =
    Uint8Array bytes
  | TextData string
  | OtherData

datatype ws_event =
    WsMessage ws_data
  | WsError
  | WsClose

datatype channel_output =
    DispatchMessage jsvalue
  | DispatchClosed
  | ChannelLogError string
  | WsSend bytes
  | WsCloseCall

definition new_MessageChannel :: MessageChannel where
  "new_MessageChannel = \<lparr>open = True\<rparr>"

definition isOpen :: "MessageChannel \<Rightarrow> bool" where
  "isOpen ch = open ch"

definition close :: "MessageChannel \<Rightarrow> MessageChannel \<times> channel_output list" where
  "close ch = (ch, [WsCloseCall])"

definition onClosed :: "MessageChannel \<Rightarrow> MessageChannel \<times> channel_output list" where
  "onClosed ch = (ch\<lparr>open := False\<rparr>, [DispatchClosed])"

text \<open>The listener of the socket's \<^verbatim>\<open>message\<close> event: the whole body sits in a
  \<^verbatim>\<open>try\<close>, whose \<^verbatim>\<open>catch\<close> logs.\<close>

definition on_message ::
  "msgpack_decode \<Rightarrow> MessageChannel \<Rightarrow> ws_data \<Rightarrow> MessageChannel \<times> channel_output list" where
  "on_message decode ch d =
     (case d of
        Uint8Array bs \<Rightarrow>
          (case decodeMessage decode bs of
             Inl e \<Rightarrow> (ch, [ChannelLogError ''Failed to decode received message: %s''])
           | Inr message \<Rightarrow> (ch, [DispatchMessage message]))
      | _ \<Rightarrow> (ch, [ChannelLogError ''Expected to receive a Uint8Array, but got %o'']))"

definition on_ws_event ::
  "msgpack_decode \<Rightarrow> MessageChannel \<Rightarrow> ws_event \<Rightarrow> MessageChannel \<times> channel_output list" where
  "on_ws_event decode ch ev =
     (case ev of
        WsMessage d \<Rightarrow> on_message decode ch d
      | WsError \<Rightarrow>
          (let (ch', out) = onClosed ch
           in (ch', ChannelLogError ''Websocket disconnected due to an error.'' # out))
      | WsClose \<Rightarrow> onClosed ch)"

text \<open>A channel living through a sequence of socket events.\<close>

fun run_channel ::
  "msgpack_decode \<Rightarrow> MessageChannel \<Rightarrow> ws_event list \<Rightarrow> MessageChannel \<times> channel_output list" where
  "run_channel decode ch [] = (ch, [])"
| "run_channel decode ch (ev # evs) =
     (let (ch', out) = on_ws_event decode ch ev;
          (ch'', out') = run_channel decode ch' evs
      in (ch'', out @ out'))"

text \<open>
  \<^verbatim>\<open>send\<close>: \<open>ws_send\<close> is the socket's \<^verbatim>\<open>send\<close>, which may throw. The result is a sum so
  that an exception reaching the caller would be its \<open>Inl\<close>.
\<close>

definition send ::
  "msgpack_encode \<Rightarrow> (bytes \<Rightarrow> string + unit) \<Rightarrow> int \<Rightarrow> MessageChannel \<Rightarrow> props
     \<Rightarrow> string + MessageChannel \<times> channel_output list" where
  "send encode ws_send now ch body =
     (case (case encodeMessage encode now body of
              Inl e \<Rightarrow> Inl e
            | Inr bs \<Rightarrow> (case ws_send bs of Inl e \<Rightarrow> Inl e | Inr u \<Rightarrow> Inr bs)) of
        Inl e \<Rightarrow> Inr (ch, [ChannelLogError ''Failed to send message: %s''])
      | Inr bs \<Rightarrow> Inr (ch, [WsSend bs]))"

section \<open>The background script: one current session, many ports\<close>

text \<open>
  The background script keeps \<^verbatim>\<open>session\<close> (the current \<^verbatim>\<open>Session\<close> or \<^verbatim>\<open>null\<close>) and an
  event target to which every connected port subscribes. A \<^verbatim>\<open>Session\<close> is an object of
  the client library: the model knows its identity, and takes what its methods return or
  throw as arguments. The \<^verbatim>\<open>async\<close> functions are modelled from call to completion, with
  the options that \<^verbatim>\<open>getOptions()\<close> resolves to as an argument. What a function does
  to the outside is returned as a list of effects, oldest first; a log line is kept
  without the port name or the message the source interpolates into it.
\<close>

type_synonym session_ref = nat
type_synonym port = nat
type_synonym SessionState = props

record Options =
  username :: "string option"
  serverUrl :: "string option"
  apiKey :: "string option"

datatype SessionOptions = SessionOptions string string "string option"

datatype RoomInit = RoomInit string string

text \<open>Modelled from the spec: the messages between the background script and the pages
  (\<^verbatim>\<open>../messages\<close>), as the intents and notifications the spec lists.\<close>

datatype port_message =
    GetSessionState
  | CreateRoom string string
  | JoinRoom string string
  | LeaveRoom
  | SessionStateMsg SessionState
  | SessionErrorMsg string
  | OptionsChanged

text \<open>What a method of \<^verbatim>\<open>Session\<close> does when called: it returns, or it throws a value
  \<open>e\<close>, of which the script reads \<^verbatim>\<open>e?.toString()\<close> (\<open>None\<close> when that is nullish).\<close>

datatype outcome =
    Returns
  | Throws "string option"

datatype effect =
    LogInfo string
  | LogDebug string
  | LogWarning string
  | LogError string
  | SessionNew session_ref SessionOptions
  | SessionAddUpdateListener session_ref
  | SessionClose session_ref string
  | SessionCreateRoom session_ref RoomInit
  | SessionJoinRoom session_ref string string
  | SessionLeaveRoom session_ref
  | DispatchUpdate
  | DispatchError string
  | PortPost port port_message

record hub =
  session :: "session_ref option"
  next_ref :: session_ref
  update_listeners :: "port list"
  error_listeners :: "port list"
  session_listeners :: "session_ref list"

definition stopSession :: "string \<Rightarrow> hub \<Rightarrow> hub \<times> effect list" where
  "stopSession message h =
     (case session h of
        None \<Rightarrow> (h, [])
      | Some s \<Rightarrow> (h, [LogInfo (''Stopping current session: '' @ message), SessionClose s message]))"

text \<open>\<^verbatim>\<open>new Session(options)\<close> makes an object no earlier one is identical to: \<open>next_ref\<close>.\<close>

definition startSession :: "SessionOptions \<Rightarrow> hub \<Rightarrow> hub \<times> effect list" where
  "startSession options h =
     (let (h1, stopped) = stopSession ''Superseded by another session'' h;
          s = next_ref h1;
          h2 = h1\<lparr>session := Some s, next_ref := Suc s\<rparr>;
          h3 = h2\<lparr>session_listeners := session_listeners h2 @ [s]\<rparr>
      in (h3, [LogInfo ''Starting new session''] @ stopped
                @ [SessionNew s options, SessionAddUpdateListener s]))"

definition getSessionState :: "(session_ref \<Rightarrow> SessionState) \<Rightarrow> hub \<Rightarrow> SessionState" where
  "getSessionState getState h =
     (case session h of
        None \<Rightarrow> [(''inRoom'', JBool False)]
      | Some s \<Rightarrow> getState s)"

definition postSessionState :: "(session_ref \<Rightarrow> SessionState) \<Rightarrow> hub \<Rightarrow> port \<Rightarrow> effect" where
  "postSessionState getState h p = PortPost p (SessionStateMsg (getSessionState getState h))"

definition postSessionError :: "port \<Rightarrow> string \<Rightarrow> effect" where
  "postSessionError p message = PortPost p (SessionErrorMsg message)"

definition onSessionUpdate :: "(session_ref \<Rightarrow> SessionState) \<Rightarrow> hub \<Rightarrow> hub \<times> effect list" where
  "onSessionUpdate getState h =
     (h, DispatchUpdate # map (postSessionState getState h) (update_listeners h))"

text \<open>A \<^verbatim>\<open>Session\<close> object dispatching its \<^verbatim>\<open>update\<close> event: the listener runs if it was
  ever added to that object (the script never removes it).\<close>

definition session_emits_update ::
  "(session_ref \<Rightarrow> SessionState) \<Rightarrow> session_ref \<Rightarrow> hub \<Rightarrow> hub \<times> effect list" where
  "session_emits_update getState s h =
     (if s \<in> set (session_listeners h) then onSessionUpdate getState h else (h, []))"

definition sendError :: "string \<Rightarrow> hub \<Rightarrow> hub \<times> effect list" where
  "sendError message h =
     (h, [LogError (''Session error: '' @ message), DispatchError message]
         @ map (\<lambda>p. postSessionError p message) (error_listeners h))"

text \<open>JavaScript's \<^verbatim>\<open>!x\<close> on an optional string: true of \<^verbatim>\<open>undefined\<close> and of the empty
  string.\<close>

definition falsy :: "string option \<Rightarrow> bool" where
  "falsy x = (case x of None \<Rightarrow> True | Some s \<Rightarrow> s = [])"

definition incomplete_options_message :: string where
  "incomplete_options_message =
     ''Incomplete options. Please use the extension options page to make sure you have a valid server URL and username set.''"

definition startSessionFromOptions :: "Options \<Rightarrow> hub \<Rightarrow> hub \<times> effect list" where
  "startSessionFromOptions options h =
     (if falsy (username options) \<or> falsy (serverUrl options) then
        (let (h', sent) = sendError incomplete_options_message h
         in (h', LogError ''Failed to start session: Options is incomplete'' # sent))
      else
        startSession
          (SessionOptions (the (username options)) (the (serverUrl options)) (apiKey options)) h)"

definition tryEnsureSession :: "Options \<Rightarrow> hub \<Rightarrow> hub \<times> effect list" where
  "tryEnsureSession options h =
     (if session h = None then startSessionFromOptions options h else (h, []))"

definition error_text :: "string option \<Rightarrow> string" where
  "error_text e = (case e of Some s \<Rightarrow> s | None \<Rightarrow> ''unknown error'')"

definition createRoom :: "Options \<Rightarrow> outcome \<Rightarrow> RoomInit \<Rightarrow> hub \<Rightarrow> hub \<times> effect list" where
  "createRoom options called init h =
     (let (h1, ensured) = tryEnsureSession options h
      in case session h1 of
           None \<Rightarrow> (h1, ensured)
         | Some s \<Rightarrow>
             (case called of
                Returns \<Rightarrow> (h1, ensured @ [SessionCreateRoom s init])
              | Throws e \<Rightarrow>
                  (let (h2, sent) = sendError (''Failed to create room: '' @ error_text e) h1
                   in (h2\<lparr>session := None\<rparr>, ensured @ [SessionCreateRoom s init] @ sent))))"

definition joinRoom :: "Options \<Rightarrow> outcome \<Rightarrow> string \<Rightarrow> string \<Rightarrow> hub \<Rightarrow> hub \<times> effect list" where
  "joinRoom options called room_id password h =
     (let (h1, ensured) = tryEnsureSession options h
      in case session h1 of
           None \<Rightarrow> (h1, ensured)
         | Some s \<Rightarrow>
             (case called of
                Returns \<Rightarrow> (h1, ensured @ [SessionJoinRoom s room_id password])
              | Throws e \<Rightarrow>
                  (let (h2, sent) = sendError (''Failed to join room: '' @ error_text e) h1
                   in (h2\<lparr>session := None\<rparr>,
                       ensured @ [SessionJoinRoom s room_id password] @ sent))))"

definition leaveRoom :: "outcome \<Rightarrow> hub \<Rightarrow> hub \<times> effect list" where
  "leaveRoom called h =
     (case session h of
        None \<Rightarrow> (h, [])
      | Some s \<Rightarrow>
          (case called of
             Returns \<Rightarrow> (h, [SessionLeaveRoom s])
           | Throws e \<Rightarrow>
               (let (h2, sent) = sendError (''Failed to leave room: '' @ error_text e) h
                in (h2\<lparr>session := None\<rparr>, [SessionLeaveRoom s] @ sent))))"

text \<open>A port connects: its two listeners are added to the event target. It disconnects:
  they are removed.\<close>

definition onConnect :: "port \<Rightarrow> hub \<Rightarrow> hub \<times> effect list" where
  "onConnect p h =
     (h\<lparr>update_listeners := update_listeners h @ [p],
        error_listeners := error_listeners h @ [p]\<rparr>,
      [LogDebug ''Received port connection''])"

definition onDisconnect :: "port \<Rightarrow> hub \<Rightarrow> hub \<times> effect list" where
  "onDisconnect p h =
     (h\<lparr>update_listeners := filter (\<lambda>q. q \<noteq> p) (update_listeners h),
        error_listeners := filter (\<lambda>q. q \<noteq> p) (error_listeners h)\<rparr>,
      [LogDebug ''Port disconnected''])"

text \<open>The listener of a port's messages. \<open>raw\<close> is what the extension's
  \<^verbatim>\<open>MessageSchema.parse(rawMsg)\<close> makes of the message: \<open>None\<close> when it throws.\<close>

definition port_onMessage ::
  "Options \<Rightarrow> outcome \<Rightarrow> port \<Rightarrow> port_message option \<Rightarrow> hub \<Rightarrow> hub \<times> effect list" where
  "port_onMessage options called p raw h =
     (case raw of
        None \<Rightarrow> (h, [LogError ''Received invalid message from port''])
      | Some message \<Rightarrow>
          (let (h', done) =
             (case message of
                JoinRoom room_id password \<Rightarrow> joinRoom options called room_id password h
              | CreateRoom name password \<Rightarrow> createRoom options called (RoomInit name password) h
              | LeaveRoom \<Rightarrow> leaveRoom called h
              | _ \<Rightarrow> (h, [LogWarning ''Received unexpected message from port'']))
           in (h', LogDebug ''Received message from port'' # done)))"


section \<open>A fragment of MessagePack\<close>

text \<open>
  The codec above is stated for any \<^verbatim>\<open>msgpack.encode\<close> and \<^verbatim>\<open>msgpack.decode\<close>. To run it
  on bytes, this section models the library on the fragment of the format the protocol
  uses: nil, booleans, integers, strings, binaries, arrays and maps with string keys, with
  the library's defaults (\<^verbatim>\<open>undefined\<close> is written as nil, nil is read as \<^verbatim>\<open>null\<close>, nesting
  is limited to depth 100 on writing). A string stands for its UTF-8 bytes. Floating
  point, extension types and maps with numeric keys are outside the fragment: there the
  model answers \<open>unsupported\<close>, which the library does not.
\<close>

definition unsupported :: string where
  "unsupported = ''outside the modelled fragment''"

text \<open>The \<open>k\<close> bytes of \<open>n\<close>, most significant first.\<close>

definition be :: "nat \<Rightarrow> int \<Rightarrow> bytes" where
  "be k n = map (\<lambda>i. word_of_int (n div 256 ^ (k - 1 - i))) [0..<k]"

definition from_be :: "bytes \<Rightarrow> int" where
  "from_be bs = foldl (\<lambda>a b. a * 256 + uint b) 0 bs"

definition utf8 :: "string \<Rightarrow> bytes" where
  "utf8 s = map (\<lambda>c. word_of_nat (of_char c)) s"

definition from_utf8 :: "bytes \<Rightarrow> string" where
  "from_utf8 bs = map (\<lambda>b. char_of (unat b)) bs"

definition mp_number :: "int \<Rightarrow> string + bytes" where
  "mp_number n =
     (if 0 \<le> n then
        (if n < 0x80 then Inr [word_of_int n]
         else if n < 0x100 then Inr (0xcc # be 1 n)
         else if n < 0x10000 then Inr (0xcd # be 2 n)
         else if n < 0x100000000 then Inr (0xce # be 4 n)
         else if n \<le> 9007199254740991 then Inr (0xcf # be 8 n)
         else Inl unsupported)
      else
        (if - 0x20 \<le> n then Inr [word_of_int n]
         else if - 0x80 \<le> n then Inr (0xd0 # be 1 n)
         else if - 0x8000 \<le> n then Inr (0xd1 # be 2 n)
         else if - 0x80000000 \<le> n then Inr (0xd2 # be 4 n)
         else if - 9007199254740991 \<le> n then
           Inr (0xd3 # be 8 n)
         else Inl unsupported))"

definition mp_string :: "string \<Rightarrow> string + bytes" where
  "mp_string s =
     (let n = int (length s) in
      if n < 32 then Inr (word_of_int (0xa0 + n) # utf8 s)
      else if n < 0x100 then Inr (0xd9 # be 1 n @ utf8 s)
      else if n < 0x10000 then Inr (0xda # be 2 n @ utf8 s)
      else if n < 0x100000000 then Inr (0xdb # be 4 n @ utf8 s)
      else Inl ''Too long string'')"

definition mp_binary :: "bytes \<Rightarrow> string + bytes" where
  "mp_binary bs =
     (let n = int (length bs) in
      if n < 0x100 then Inr (0xc4 # be 1 n @ bs)
      else if n < 0x10000 then Inr (0xc5 # be 2 n @ bs)
      else if n < 0x100000000 then Inr (0xc6 # be 4 n @ bs)
      else Inl ''Too large binary'')"

definition mp_array_header :: "int \<Rightarrow> string + bytes" where
  "mp_array_header n =
     (if n < 16 then Inr [word_of_int (0x90 + n)]
      else if n < 0x10000 then Inr (0xdc # be 2 n)
      else if n < 0x100000000 then Inr (0xdd # be 4 n)
      else Inl ''Too large array'')"

definition mp_map_header :: "int \<Rightarrow> string + bytes" where
  "mp_map_header n =
     (if n < 16 then Inr [word_of_int (0x80 + n)]
      else if n < 0x10000 then Inr (0xde # be 2 n)
      else if n < 0x100000000 then Inr (0xdf # be 4 n)
      else Inl ''Too large map object'')"

text \<open>Two encodings one after the other, or the first error.\<close>

definition mp_then :: "string + bytes \<Rightarrow> string + bytes \<Rightarrow> string + bytes" where
  "mp_then a b =
     (case a of
        Inl e \<Rightarrow> Inl e
      | Inr x \<Rightarrow> (case b of Inl e \<Rightarrow> Inl e | Inr y \<Rightarrow> Inr (x @ y)))"

fun mp_encode_at :: "nat \<Rightarrow> jsvalue \<Rightarrow> string + bytes"
and mp_encode_items :: "nat \<Rightarrow> jsvalue list \<Rightarrow> string + bytes"
and mp_encode_props :: "nat \<Rightarrow> props \<Rightarrow> string + bytes" where
  "mp_encode_at depth JUndefined = (if 100 < depth then Inl ''Too deep objects'' else Inr [0xc0])"
| "mp_encode_at depth JNull = (if 100 < depth then Inl ''Too deep objects'' else Inr [0xc0])"
| "mp_encode_at depth (JBool b) =
     (if 100 < depth then Inl ''Too deep objects'' else Inr [if b then 0xc3 else 0xc2])"
| "mp_encode_at depth (JNumber n) =
     (if 100 < depth then Inl ''Too deep objects'' else mp_number n)"
| "mp_encode_at depth JNaN = (if 100 < depth then Inl ''Too deep objects'' else Inl unsupported)"
| "mp_encode_at depth (JString s) =
     (if 100 < depth then Inl ''Too deep objects'' else mp_string s)"
| "mp_encode_at depth (JBinary bs) =
     (if 100 < depth then Inl ''Too deep objects'' else mp_binary bs)"
| "mp_encode_at depth (JArray vs) =
     (if 100 < depth then Inl ''Too deep objects''
      else mp_then (mp_array_header (int (length vs))) (mp_encode_items (Suc depth) vs))"
| "mp_encode_at depth (JObject kvs) =
     (if 100 < depth then Inl ''Too deep objects''
      else mp_then (mp_map_header (int (length kvs))) (mp_encode_props (Suc depth) kvs))"
| "mp_encode_items depth [] = Inr []"
| "mp_encode_items depth (v # vs) = mp_then (mp_encode_at depth v) (mp_encode_items depth vs)"
| "mp_encode_props depth [] = Inr []"
| "mp_encode_props depth ((k, v) # kvs) =
     mp_then (mp_then (mp_string k) (mp_encode_at depth v)) (mp_encode_props depth kvs)"

definition mp_encode :: msgpack_encode where
  "mp_encode v = mp_encode_at 1 v"

text \<open>Reading: \<open>split_at n bs\<close> takes \<open>n\<close> bytes off the input if it has them.\<close>

definition split_at :: "nat \<Rightarrow> bytes \<Rightarrow> (bytes \<times> bytes) option" where
  "split_at n bs = (if n \<le> length bs then Some (take n bs, drop n bs) else None)"

definition insufficient :: string where
  "insufficient = ''Insufficient data''"

text \<open>An unsigned and a signed integer of \<open>k\<close> bytes.\<close>

definition read_uint :: "nat \<Rightarrow> bytes \<Rightarrow> string + jsvalue \<times> bytes" where
  "read_uint k bs =
     (case split_at k bs of
        None \<Rightarrow> Inl insufficient
      | Some (x, rest) \<Rightarrow> Inr (JNumber (from_be x), rest))"

definition read_int :: "nat \<Rightarrow> bytes \<Rightarrow> string + jsvalue \<times> bytes" where
  "read_int k bs =
     (case split_at k bs of
        None \<Rightarrow> Inl insufficient
      | Some (x, rest) \<Rightarrow>
          (let u = from_be x
           in Inr (JNumber (if u < 2 ^ (8 * k - 1) then u else u - 2 ^ (8 * k)), rest)))"

definition read_str :: "nat \<Rightarrow> bytes \<Rightarrow> string + jsvalue \<times> bytes" where
  "read_str n bs =
     (case split_at n bs of
        None \<Rightarrow> Inl insufficient
      | Some (x, rest) \<Rightarrow> Inr (JString (from_utf8 x), rest))"

definition read_bin :: "nat \<Rightarrow> bytes \<Rightarrow> string + jsvalue \<times> bytes" where
  "read_bin n bs =
     (case split_at n bs of
        None \<Rightarrow> Inl insufficient
      | Some (x, rest) \<Rightarrow> Inr (JBinary x, rest))"

text \<open>A length field of \<open>k\<close> bytes, then what \<open>f\<close> reads with that length.\<close>

definition with_length ::
  "nat \<Rightarrow> bytes \<Rightarrow> (nat \<Rightarrow> bytes \<Rightarrow> string + 'a \<times> bytes) \<Rightarrow> string + 'a \<times> bytes" where
  "with_length k bs f =
     (case split_at k bs of
        None \<Rightarrow> Inl insufficient
      | Some (x, rest) \<Rightarrow> f (nat (from_be x)) rest)"

text \<open>\<^verbatim>\<open>object[key] = value\<close>: a key already there keeps its place.\<close>

definition assign :: "props \<Rightarrow> string \<Rightarrow> jsvalue \<Rightarrow> props" where
  "assign kvs k v =
     (if map_of kvs k = None then kvs @ [(k, v)]
      else map (\<lambda>(k', v'). if k' = k then (k', v) else (k', v')) kvs)"

text \<open>The reader proper. The first argument bounds the nesting; the length of the input
  is always enough, since every value takes at least one byte.\<close>

fun mp_decode_value :: "nat \<Rightarrow> bytes \<Rightarrow> string + jsvalue \<times> bytes"
and mp_decode_items :: "nat \<Rightarrow> nat \<Rightarrow> bytes \<Rightarrow> string + jsvalue list \<times> bytes"
and mp_decode_props :: "nat \<Rightarrow> nat \<Rightarrow> props \<Rightarrow> bytes \<Rightarrow> string + props \<times> bytes" where
  "mp_decode_value 0 bs = Inl insufficient"
| "mp_decode_value (Suc fuel) [] = Inl insufficient"
| "mp_decode_value (Suc fuel) (b # bs) =
     (let h = unat b in
      if h < 0x80 then Inr (JNumber (int h), bs)
      else if h < 0x90 then
        (case mp_decode_props fuel (h - 0x80) [] bs of
           Inl e \<Rightarrow> Inl e | Inr (kvs, rest) \<Rightarrow> Inr (JObject kvs, rest))
      else if h < 0xa0 then
        (case mp_decode_items fuel (h - 0x90) bs of
           Inl e \<Rightarrow> Inl e | Inr (vs, rest) \<Rightarrow> Inr (JArray vs, rest))
      else if h < 0xc0 then read_str (h - 0xa0) bs
      else if h = 0xc0 then Inr (JNull, bs)
      else if h = 0xc1 then Inl ''Unrecognized type byte''
      else if h = 0xc2 then Inr (JBool False, bs)
      else if h = 0xc3 then Inr (JBool True, bs)
      else if h = 0xc4 then with_length 1 bs read_bin
      else if h = 0xc5 then with_length 2 bs read_bin
      else if h = 0xc6 then with_length 4 bs read_bin
      else if h < 0xcc then Inl unsupported
      else if h = 0xcc then read_uint 1 bs
      else if h = 0xcd then read_uint 2 bs
      else if h = 0xce then read_uint 4 bs
      else if h = 0xcf then read_uint 8 bs
      else if h = 0xd0 then read_int 1 bs
      else if h = 0xd1 then read_int 2 bs
      else if h = 0xd2 then read_int 4 bs
      else if h = 0xd3 then read_int 8 bs
      else if h < 0xd9 then Inl unsupported
      else if h = 0xd9 then with_length 1 bs read_str
      else if h = 0xda then with_length 2 bs read_str
      else if h = 0xdb then with_length 4 bs read_str
      else if h = 0xdc then
        (case with_length 2 bs (mp_decode_items fuel) of
           Inl e \<Rightarrow> Inl e | Inr (vs, rest) \<Rightarrow> Inr (JArray vs, rest))
      else if h = 0xdd then
        (case with_length 4 bs (mp_decode_items fuel) of
           Inl e \<Rightarrow> Inl e | Inr (vs, rest) \<Rightarrow> Inr (JArray vs, rest))
      else if h = 0xde then
        (case with_length 2 bs (\<lambda>n. mp_decode_props fuel n []) of
           Inl e \<Rightarrow> Inl e | Inr (kvs, rest) \<Rightarrow> Inr (JObject kvs, rest))
      else if h = 0xdf then
        (case with_length 4 bs (\<lambda>n. mp_decode_props fuel n []) of
           Inl e \<Rightarrow> Inl e | Inr (kvs, rest) \<Rightarrow> Inr (JObject kvs, rest))
      else Inr (JNumber (int h - 0x100), bs))"
| "mp_decode_items fuel 0 bs = Inr ([], bs)"
| "mp_decode_items fuel (Suc n) bs =
     (case mp_decode_value fuel bs of
        Inl e \<Rightarrow> Inl e
      | Inr (v, rest) \<Rightarrow>
          (case mp_decode_items fuel n rest of
             Inl e \<Rightarrow> Inl e
           | Inr (vs, rest') \<Rightarrow> Inr (v # vs, rest')))"
| "mp_decode_props fuel 0 acc bs = Inr (acc, bs)"
| "mp_decode_props fuel (Suc n) acc bs =
     (case mp_decode_value fuel bs of
        Inl e \<Rightarrow> Inl e
      | Inr (JString k, rest) \<Rightarrow>
          (if k = ''__proto__'' then Inl ''The key __proto__ is not allowed''
           else
             (case mp_decode_value fuel rest of
                Inl e \<Rightarrow> Inl e
              | Inr (v, rest') \<Rightarrow> mp_decode_props fuel n (assign acc k v) rest'))
      | Inr (JNumber i, rest) \<Rightarrow> Inl unsupported
      | Inr (other, rest) \<Rightarrow> Inl ''The type of key must be string or number'')"

definition mp_decode :: msgpack_decode where
  "mp_decode bs =
     (case mp_decode_value (length bs) bs of
        Inl e \<Rightarrow> Inl e
      | Inr (v, rest) \<Rightarrow> if rest = [] then Inr v else Inl ''Extra bytes found'')"


section \<open>What the properties are stated with\<close>

text \<open>
  \<open>conforms s v\<close>: the value \<open>v\<close> has exactly the form the schema \<open>s\<close> describes. An object
  has no key twice, no key the shape lacks, and under every key of the shape a value that
  conforms (a missing key reads as \<^verbatim>\<open>undefined\<close>, which only an optional field accepts).
  An object conforms to an intersection when it is one part that conforms to the left
  schema followed by one that conforms to the right.
\<close>

fun conforms :: "zod \<Rightarrow> jsvalue \<Rightarrow> bool" where
  "conforms ZString v = (case v of JString s \<Rightarrow> True | _ \<Rightarrow> False)"
| "conforms ZUuid v = (case v of JString s \<Rightarrow> is_uuid s | _ \<Rightarrow> False)"
| "conforms ZNumber v = (case v of JNumber n \<Rightarrow> True | _ \<Rightarrow> False)"
| "conforms (ZOptional s) v = (v = JUndefined \<or> conforms s v)"
| "conforms (ZEnum values) v = (case v of JString s \<Rightarrow> s \<in> set values | _ \<Rightarrow> False)"
| "conforms (ZLiteral l) v = (v = JString l)"
| "conforms (ZArray s) v = (case v of JArray vs \<Rightarrow> list_all (conforms s) vs | _ \<Rightarrow> False)"
| "conforms (ZObject shape) v =
     (case v of
        JObject kvs \<Rightarrow>
          distinct (map fst kvs)
          \<and> list_all (\<lambda>k. k \<in> set (map fst shape)) (map fst kvs)
          \<and> list_all (\<lambda>ks. conforms (snd ks) (get_prop v (fst ks))) shape
      | _ \<Rightarrow> False)"
| "conforms (ZDiscriminatedUnion d options) v = list_ex (\<lambda>opt. conforms opt v) options"
| "conforms (ZAnd left right) v =
     (case v of
        JObject kvs \<Rightarrow>
          list_ex (\<lambda>n. conforms left (JObject (take n kvs)) \<and> conforms right (JObject (drop n kvs)))
            [0..<Suc (length kvs)]
      | _ \<Rightarrow> False)"

text \<open>The wire tags of the protocol, as the source lists them.\<close>

definition message_tags :: "string list" where
  "message_tags =
     [''connection::login/v1'', ''connection::login_ack/v1'', ''connection::ping/v1'',
      ''connection::pong/v1'', ''connection::client_error/v1'', ''connection::closed/v1'',
      ''connection::keepalive/v1'', ''room::create/v1'', ''room::create_ack/v1'',
      ''room::close/v1'', ''room::close_ack/v1'', ''room::join/v1'', ''room::join_ack/v1'',
      ''room::leave/v1'', ''room::leave_ack/v1'', ''room::disconnected/v1'',
      ''room::request_state/v1'', ''room::state/v1'']"

text \<open>The fields the variant with a given tag declares.\<close>

fun shape_of :: "zod \<Rightarrow> (string \<times> zod) list" where
  "shape_of (ZObject shape) = shape"
| "shape_of s = []"

definition variant_fields :: "string \<Rightarrow> (string \<times> zod) list option" where
  "variant_fields tag =
     map_option shape_of (find (\<lambda>opt. discriminator_of ''m'' opt = Some tag) MessageBodyOptions)"

text \<open>A schema is simple when it has no intersection inside, no object shape in it has a
  key twice, and every option of a discriminated union carries a literal under the
  discriminator key, no two the same (zod refuses to build a union otherwise, and a shape
  is a JavaScript object).\<close>

fun simple_zod :: "zod \<Rightarrow> bool" where
  "simple_zod (ZOptional s) = simple_zod s"
| "simple_zod (ZArray s) = simple_zod s"
| "simple_zod (ZObject shape) =
     (distinct (map fst shape) \<and> list_all (\<lambda>ks. simple_zod (snd ks)) shape)"
| "simple_zod (ZDiscriminatedUnion d options) =
     (list_all simple_zod options
      \<and> list_all (\<lambda>opt. discriminator_of d opt \<noteq> None) options
      \<and> distinct (map (discriminator_of d) options))"
| "simple_zod (ZAnd left right) = False"
| "simple_zod s = True"

text \<open>\<open>same_value a b\<close>: the same JavaScript value, whatever the order of the keys of
  the objects in it.\<close>

fun same_value :: "jsvalue \<Rightarrow> jsvalue \<Rightarrow> bool" where
  "same_value (JObject a) v =
     (case v of
        JObject b \<Rightarrow>
          set (map fst a) = set (map fst b)
          \<and> list_all (\<lambda>kw. same_value (snd kw) (get_prop v (fst kw))) a
      | _ \<Rightarrow> False)"
| "same_value (JArray a) v = (case v of JArray b \<Rightarrow> list_all2 same_value a b | _ \<Rightarrow> False)"
| "same_value a v = (a = v)"

text \<open>\<open>plain v\<close>: nothing in \<open>v\<close> is \<^verbatim>\<open>undefined\<close>, and every object in it is a
  JavaScript object proper: no key twice, no key \<^verbatim>\<open>__proto__\<close>.\<close>

fun plain :: "jsvalue \<Rightarrow> bool" where
  "plain JUndefined = False"
| "plain (JArray vs) = list_all plain vs"
| "plain (JObject kvs) =
     (distinct (map fst kvs) \<and> ''__proto__'' \<notin> set (map fst kvs)
      \<and> list_all (\<lambda>kv. plain (snd kv)) kvs)"
| "plain v = True"

text \<open>What reporting an error to the observers consists of: the log line, the one error
  event, and a \<^verbatim>\<open>session_error\<close> message posted on every port that listens.\<close>

definition error_report :: "string \<Rightarrow> port list \<Rightarrow> effect list" where
  "error_report message ports =
     [LogError (''Session error: '' @ message), DispatchError message]
     @ map (\<lambda>p. PortPost p (SessionErrorMsg message)) ports"

text \<open>\<open>before a b xs\<close>: \<open>a\<close> occurs in \<open>xs\<close>, and \<open>b\<close> occurs after its first occurrence.\<close>

fun before :: "'a \<Rightarrow> 'a \<Rightarrow> 'a list \<Rightarrow> bool" where
  "before a b [] = False"
| "before a b (x # xs) = (if x = a then b \<in> set xs else before a b xs)"

text \<open>The script as it starts: \<^verbatim>\<open>let session = null\<close>, no listener anywhere.\<close>

definition initial_hub :: hub where
  "initial_hub =
     \<lparr>session = None, next_ref = 0, update_listeners = [], error_listeners = [],
      session_listeners = []\<rparr>"

text \<open>The current session is an object made earlier: its identity is below \<open>next_ref\<close>.\<close>

definition fresh_refs :: "hub \<Rightarrow> bool" where
  "fresh_refs h = (case session h of None \<Rightarrow> True | Some s \<Rightarrow> s < next_ref h)"

definition is_SessionClose :: "session_ref \<Rightarrow> effect \<Rightarrow> bool" where
  "is_SessionClose s e = (case e of SessionClose s' m \<Rightarrow> s' = s | _ \<Rightarrow> False)"

definition is_DispatchError :: "effect \<Rightarrow> bool" where
  "is_DispatchError e = (case e of DispatchError m \<Rightarrow> True | _ \<Rightarrow> False)"

text \<open>An effect that reaches a \<^verbatim>\<open>Session\<close>, and through it the network.\<close>

definition is_session_effect :: "effect \<Rightarrow> bool" where
  "is_session_effect e =
     (case e of
        SessionNew s opts \<Rightarrow> True
      | SessionAddUpdateListener s \<Rightarrow> True
      | SessionClose s m \<Rightarrow> True
      | SessionCreateRoom s init \<Rightarrow> True
      | SessionJoinRoom s i pw \<Rightarrow> True
      | SessionLeaveRoom s \<Rightarrow> True
      | _ \<Rightarrow> False)"

definition is_closing :: "ws_event \<Rightarrow> bool" where
  "is_closing ev = (ev = WsError \<or> ev = WsClose)"

text \<open>Frames and values the properties are tried on.\<close>

definition ping_body :: props where
  "ping_body = [(''m'', JString ''connection::ping/v1'')]"

definition ping_frame :: bytes where
  "ping_frame =
     [130, 161, 116, 207, 0, 0, 1, 139, 207, 229, 104, 0, 161, 109, 179, 99, 111, 110,
      110, 101, 99, 116, 105, 111, 110, 58, 58, 112, 105, 110, 103, 47, 118, 49]"

definition unknown_tag_frame :: bytes where
  "unknown_tag_frame =
     [130, 161, 116, 207, 0, 0, 1, 139, 207, 229, 104, 0, 161, 109, 173,
      114, 111, 111, 109, 58, 58, 110, 111, 112, 101, 47, 118, 49]"

definition login_without_username_frame :: bytes where
  "login_without_username_frame =
     [131, 161, 116, 207, 0, 0, 1, 139, 207, 229, 104, 0, 161, 109, 180, 99,
      111, 110, 110, 101, 99, 116, 105, 111, 110, 58, 58, 108, 111, 103,
      105, 110, 47, 118, 49, 167, 97, 112, 105, 95, 107, 101, 121, 161, 107]"

definition ping_without_t_frame :: bytes where
  "ping_without_t_frame =
     [129, 161, 109, 179, 99, 111, 110, 110, 101, 99, 116, 105, 111, 110,
      58, 58, 112, 105, 110, 103, 47, 118, 49]"

definition login_body :: props where
  "login_body =
     [(''m'', JString ''connection::login/v1''), (''username'', JString ''bob''),
      (''api_key'', JUndefined)]"

definition login_frame :: bytes where
  "login_frame =
     [132, 161, 116, 207, 0, 0, 1, 139, 207, 229, 104, 0, 161, 109, 180, 99,
      111, 110, 110, 101, 99, 116, 105, 111, 110, 58, 58, 108, 111, 103,
      105, 110, 47, 118, 49, 168, 117, 115, 101, 114, 110, 97, 109, 101,
      163, 98, 111, 98, 167, 97, 112, 105, 95, 107, 101, 121, 192]"

definition state_body :: props where
  "state_body =
     [(''m'', JString ''room::state/v1''),
      (''id'', JString ''123e4567-e89b-12d3-a456-426614174000''),
      (''name'', JString ''alpha''),
      (''password'', JString ''secret''),
      (''users'',
       JArray [JObject [(''role'', JString ''host''), (''name'', JString ''bob''),
                        (''id'', JString ''00000000-0000-4000-8000-000000000001'')]])]"

definition state_frame :: bytes where
  "state_frame =
     [134, 161, 116, 207, 0, 0, 1, 139, 207, 229, 104, 0, 161, 109, 174,
      114, 111, 111, 109, 58, 58, 115, 116, 97, 116, 101, 47, 118, 49, 162,
      105, 100, 217, 36, 49, 50, 51, 101, 52, 53, 54, 55, 45, 101, 56, 57,
      98, 45, 49, 50, 100, 51, 45, 97, 52, 53, 54, 45, 52, 50, 54, 54, 49,
      52, 49, 55, 52, 48, 48, 48, 164, 110, 97, 109, 101, 165, 97, 108, 112,
      104, 97, 168, 112, 97, 115, 115, 119, 111, 114, 100, 166, 115, 101,
      99, 114, 101, 116, 165, 117, 115, 101, 114, 115, 145, 131, 164, 114,
      111, 108, 101, 164, 104, 111, 115, 116, 164, 110, 97, 109, 101, 163,
      98, 111, 98, 162, 105, 100, 217, 36, 48, 48, 48, 48, 48, 48, 48, 48,
      45, 48, 48, 48, 48, 45, 52, 48, 48, 48, 45, 56, 48, 48, 48, 45, 48,
      48, 48, 48, 48, 48, 48, 48, 48, 48, 48, 49]"

section \<open>Properties of the MessagePack fragment\<close>

lemma be_Suc: "be (Suc k) n = word_of_int (n div 256 ^ k) # be k n"
proof -
  have "[0..<Suc k] = 0 # map Suc [0..<k]"
    by (simp add: upt_conv_Cons map_Suc_upt del: upt_Suc)
  then show ?thesis
    by (simp add: be_def comp_def del: upt_Suc)
qed

lemma be_0: "be 0 n = []"
  by (simp add: be_def)

lemma length_be: "length (be k n) = k"
  by (simp add: be_def)

lemma foldl_be: "foldl (\<lambda>a b. a * 256 + uint b) a (bs :: bytes) = a * 256 ^ length bs + from_be bs"
proof (induction bs arbitrary: a)
  case Nil
  show ?case by (simp add: from_be_def)
next
  case (Cons b bs)
  have "foldl (\<lambda>a b. a * 256 + uint b) a (b # bs)
      = (a * 256 + uint b) * 256 ^ length bs + from_be bs"
    using Cons.IH [of "a * 256 + uint b"] by simp
  moreover have "from_be (b # bs) = uint b * 256 ^ length bs + from_be bs"
    using Cons.IH [of "uint b"] by (simp add: from_be_def)
  ultimately show ?case by (simp add: algebra_simps)
qed

lemma from_be_Cons: "from_be (b # bs) = uint b * 256 ^ length bs + from_be bs"
  using foldl_be [of "uint b" bs] by (simp add: from_be_def)

lemma uint_byte: "uint (word_of_int x :: 8 word) = x mod 256"
  by (simp add: uint_word_of_int_eq take_bit_eq_mod)

lemma from_be_be: "from_be (be k n) = n mod 256 ^ k"
proof (induction k)
  case 0
  show ?case by (simp add: be_0 from_be_def)
next
  case (Suc k)
  have "from_be (be (Suc k) n) = (n div 256 ^ k mod 256) * 256 ^ k + n mod 256 ^ k"
    using Suc by (simp add: be_Suc from_be_Cons length_be uint_byte)
  also have "\<dots> = n mod 256 ^ Suc k"
    using zmod_zmult2_eq [where a = n and b = "256 ^ k" and c = 256]
    by (simp add: mult.commute)
  finally show ?case .
qed

lemma split_at_append: "length x = n \<Longrightarrow> split_at n (x @ rest) = Some (x, rest)"
  by (simp add: split_at_def)

lemma from_utf8_utf8: "from_utf8 (utf8 s) = s"
proof -
  have "char_of (unat (word_of_nat (of_char c) :: 8 word)) = c" for c :: char
  proof -
    have "(of_char c :: nat) < 256" by simp
    then have "unat (word_of_nat (of_char c) :: 8 word) = of_char c"
      by (simp add: unat_of_nat)
    then show ?thesis by simp
  qed
  then show ?thesis by (simp add: from_utf8_def utf8_def comp_def map_idI)
qed

lemma length_utf8: "length (utf8 s) = length s"
  by (simp add: utf8_def)

lemma unat_byte: "0 \<le> x \<Longrightarrow> x < 256 \<Longrightarrow> unat (word_of_int x :: 8 word) = nat x"
  by (simp add: unat_eq_nat_uint uint_byte)

lemma mod_negative: "- m \<le> x \<Longrightarrow> x < 0 \<Longrightarrow> x mod m = x + m" for x m :: int
proof -
  assume a: "- m \<le> x" "x < 0"
  have "(x + m) mod m = x + m" using a by (intro mod_pos_pos_trivial) auto
  moreover have "(x + m) mod m = x mod m" by simp
  ultimately show ?thesis by simp
qed

lemma head_fixint:
  "unat b < 0x80 \<Longrightarrow> mp_decode_value (Suc fuel) (b # bs) = Inr (JNumber (int (unat b)), bs)"
  by (simp add: Let_def)

lemma head_negative:
  "0xe0 \<le> unat b
   \<Longrightarrow> mp_decode_value (Suc fuel) (b # bs) = Inr (JNumber (int (unat b) - 0x100), bs)"
  by (simp add: Let_def)

lemma head_fixstr:
  "0xa0 \<le> unat b \<Longrightarrow> unat b < 0xc0
   \<Longrightarrow> mp_decode_value (Suc fuel) (b # bs) = read_str (unat b - 0xa0) bs"
  by (simp add: Let_def)

lemma head_fixarray:
  "0x90 \<le> unat b \<Longrightarrow> unat b < 0xa0
   \<Longrightarrow> mp_decode_value (Suc fuel) (b # bs)
       = (case mp_decode_items fuel (unat b - 0x90) bs of
            Inl e \<Rightarrow> Inl e | Inr (vs, rest) \<Rightarrow> Inr (JArray vs, rest))"
  by (simp add: Let_def)

lemma head_fixmap:
  "0x80 \<le> unat b \<Longrightarrow> unat b < 0x90
   \<Longrightarrow> mp_decode_value (Suc fuel) (b # bs)
       = (case mp_decode_props fuel (unat b - 0x80) [] bs of
            Inl e \<Rightarrow> Inl e | Inr (kvs, rest) \<Rightarrow> Inr (JObject kvs, rest))"
  by (simp add: Let_def)

lemma unat_negative_byte:
  "- 256 \<le> x \<Longrightarrow> x < 0 \<Longrightarrow> unat (word_of_int x :: 8 word) = nat (x + 256)"
proof -
  assume a: "- 256 \<le> x" "x < 0"
  have "x mod 256 = x + 256"
    using a mod_negative [of 256 x] by simp
  then show ?thesis by (simp add: unat_eq_nat_uint uint_byte)
qed

lemma read_uint_be:
  "0 \<le> n \<Longrightarrow> n < 256 ^ k \<Longrightarrow> read_uint k (be k n @ rest) = Inr (JNumber n, rest)"
  by (simp add: read_uint_def split_at_append length_be from_be_be)

lemma read_int_be:
  assumes "- (2 ^ (8 * k - 1)) \<le> n" and "n < 2 ^ (8 * k - 1)" and "0 < k"
  shows "read_int k (be k n @ rest) = Inr (JNumber n, rest)"
proof -
  have pow: "(256::int) ^ k = 2 * 2 ^ (8 * k - 1)"
  proof -
    have "(256::int) ^ k = 2 ^ (8 * k)" by (simp add: power_mult)
    also have "\<dots> = 2 ^ Suc (8 * k - 1)" using assms(3) by simp
    finally show ?thesis by simp
  qed
  have "(if n mod 256 ^ k < 2 ^ (8 * k - 1) then n mod 256 ^ k else n mod 256 ^ k - 2 ^ (8 * k))
      = n"
  proof (cases "0 \<le> n")
    case True
    then have "n mod 256 ^ k = n" using assms(2) pow by simp
    then show ?thesis using assms(2) by simp
  next
    case False
    then have "n mod 256 ^ k = n + 256 ^ k"
      using assms(1) pow mod_negative [of "256 ^ k" n] by simp
    moreover have "(2::int) ^ (8 * k) = 256 ^ k" by (simp add: power_mult)
    ultimately show ?thesis using False pow assms(1) by simp
  qed
  then show ?thesis
    by (auto simp: read_int_def split_at_append length_be from_be_be Let_def split: if_splits)
qed

lemma decode_number:
  assumes "mp_number n = Inr f"
  shows "mp_decode_value (Suc fuel) (f @ rest) = Inr (JNumber n, rest)"
proof (cases "0 \<le> n")
  case True
  consider "n < 0x80" | "0x80 \<le> n" "n < 0x100" | "0x100 \<le> n" "n < 0x10000"
    | "0x10000 \<le> n" "n < 0x100000000" | "0x100000000 \<le> n" "n \<le> 9007199254740991"
    | "9007199254740991 < n"
    by linarith
  then show ?thesis
  proof cases
    case 1
    then have f: "f = [word_of_int n]" using assms True by (simp add: mp_number_def)
    have "unat (word_of_int n :: 8 word) = nat n" using True 1 by (simp add: unat_byte)
    then show ?thesis
      using f True 1 head_fixint [of "word_of_int n" fuel rest]
      by (simp del: mp_decode_value.simps)
  next
    case 2
    then have f: "f = 0xcc # be 1 n" using assms True by (simp add: mp_number_def)
    show ?thesis using f read_uint_be [of n 1 rest] True 2 by (simp add: Let_def)
  next
    case 3
    then have f: "f = 0xcd # be 2 n" using assms True by (simp add: mp_number_def)
    show ?thesis using f read_uint_be [of n 2 rest] True 3 by (simp add: Let_def)
  next
    case 4
    then have f: "f = 0xce # be 4 n" using assms True by (simp add: mp_number_def)
    show ?thesis using f read_uint_be [of n 4 rest] True 4 by (simp add: Let_def)
  next
    case 5
    then have f: "f = 0xcf # be 8 n" using assms True by (simp add: mp_number_def)
    show ?thesis using f read_uint_be [of n 8 rest] True 5 by (simp add: Let_def)
  next
    case 6
    then show ?thesis using assms True by (simp add: mp_number_def)
  qed
next
  case False
  consider "- 0x20 \<le> n" | "n < - 0x20" "- 0x80 \<le> n" | "n < - 0x80" "- 0x8000 \<le> n"
    | "n < - 0x8000" "- 0x80000000 \<le> n" | "n < - 0x80000000" "- 9007199254740991 \<le> n"
    | "n < - 9007199254740991"
    by linarith
  then show ?thesis
  proof cases
    case 1
    then have f: "f = [word_of_int n]" using assms False by (simp add: mp_number_def)
    have "unat (word_of_int n :: 8 word) = nat (n + 256)"
      using False 1 by (simp add: unat_negative_byte)
    then show ?thesis
      using f False 1 head_negative [of "word_of_int n" fuel rest]
      by (simp del: mp_decode_value.simps)
  next
    case 2
    then have f: "f = 0xd0 # be 1 n" using assms False by (simp add: mp_number_def)
    show ?thesis using f read_int_be [of 1 n rest] False 2 by (simp add: Let_def)
  next
    case 3
    then have f: "f = 0xd1 # be 2 n" using assms False by (simp add: mp_number_def)
    show ?thesis using f read_int_be [of 2 n rest] False 3 by (simp add: Let_def)
  next
    case 4
    then have f: "f = 0xd2 # be 4 n" using assms False by (simp add: mp_number_def)
    show ?thesis using f read_int_be [of 4 n rest] False 4 by (simp add: Let_def)
  next
    case 5
    then have f: "f = 0xd3 # be 8 n" using assms False by (simp add: mp_number_def)
    show ?thesis using f read_int_be [of 8 n rest] False 5 by (simp add: Let_def)
  next
    case 6
    then show ?thesis using assms False by (simp add: mp_number_def)
  qed
qed

lemma with_length_be:
  "0 \<le> n \<Longrightarrow> n < 256 ^ k \<Longrightarrow> with_length k (be k n @ bs) r = r (nat n) bs"
  by (simp add: with_length_def split_at_append length_be from_be_be)

lemma read_str_utf8: "read_str (length s) (utf8 s @ rest) = Inr (JString s, rest)"
  by (simp add: read_str_def split_at_append length_utf8 from_utf8_utf8)

lemma read_bin_bytes: "read_bin (length x) (x @ rest) = Inr (JBinary x, rest)"
  by (simp add: read_bin_def split_at_append)

lemma decode_string:
  assumes "mp_string s = Inr f"
  shows "mp_decode_value (Suc fuel) (f @ rest) = Inr (JString s, rest)"
proof -
  define n where "n = int (length s)"
  have n0: "0 \<le> n" by (simp add: n_def)
  consider "n < 32" | "32 \<le> n" "n < 0x100" | "0x100 \<le> n" "n < 0x10000"
    | "0x10000 \<le> n" "n < 0x100000000" | "0x100000000 \<le> n"
    by linarith
  then show ?thesis
  proof cases
    case 1
    then have f: "f = word_of_int (0xa0 + n) # utf8 s"
      using assms by (simp add: mp_string_def n_def Let_def)
    have u: "unat (word_of_int (0xa0 + n) :: 8 word) = nat (0xa0 + n)"
      using n0 1 unat_byte [of "0xa0 + n"] by simp
    have "mp_decode_value (Suc fuel) (word_of_int (0xa0 + n) # utf8 s @ rest)
        = read_str (unat (word_of_int (0xa0 + n) :: 8 word) - 0xa0) (utf8 s @ rest)"
      using n0 1 u by (intro head_fixstr) simp_all
    moreover have "unat (word_of_int (0xa0 + n) :: 8 word) - 0xa0 = length s"
      using u n0 by (simp add: n_def)
    ultimately show ?thesis
      using f read_str_utf8 by (simp del: mp_decode_value.simps)
  next
    case 2
    then have f: "f = 0xd9 # be 1 n @ utf8 s"
      using assms by (simp add: mp_string_def n_def Let_def)
    show ?thesis
      using f with_length_be [of n 1 "utf8 s @ rest" read_str] n0 2 read_str_utf8 [of s rest]
      by (simp add: Let_def n_def)
  next
    case 3
    then have f: "f = 0xda # be 2 n @ utf8 s"
      using assms by (simp add: mp_string_def n_def Let_def)
    show ?thesis
      using f with_length_be [of n 2 "utf8 s @ rest" read_str] n0 3 read_str_utf8 [of s rest]
      by (simp add: Let_def n_def)
  next
    case 4
    then have f: "f = 0xdb # be 4 n @ utf8 s"
      using assms by (simp add: mp_string_def n_def Let_def)
    show ?thesis
      using f with_length_be [of n 4 "utf8 s @ rest" read_str] n0 4 read_str_utf8 [of s rest]
      by (simp add: Let_def n_def)
  next
    case 5
    then show ?thesis using assms by (simp add: mp_string_def n_def Let_def)
  qed
qed

lemma decode_binary:
  assumes "mp_binary x = Inr f"
  shows "mp_decode_value (Suc fuel) (f @ rest) = Inr (JBinary x, rest)"
proof -
  define n where "n = int (length x)"
  have n0: "0 \<le> n" by (simp add: n_def)
  consider "n < 0x100" | "0x100 \<le> n" "n < 0x10000"
    | "0x10000 \<le> n" "n < 0x100000000" | "0x100000000 \<le> n"
    by linarith
  then show ?thesis
  proof cases
    case 1
    then have f: "f = 0xc4 # be 1 n @ x"
      using assms by (simp add: mp_binary_def n_def Let_def)
    show ?thesis
      using f with_length_be [of n 1 "x @ rest" read_bin] n0 1 read_bin_bytes [of x rest]
      by (simp add: Let_def n_def)
  next
    case 2
    then have f: "f = 0xc5 # be 2 n @ x"
      using assms by (simp add: mp_binary_def n_def Let_def)
    show ?thesis
      using f with_length_be [of n 2 "x @ rest" read_bin] n0 2 read_bin_bytes [of x rest]
      by (simp add: Let_def n_def)
  next
    case 3
    then have f: "f = 0xc6 # be 4 n @ x"
      using assms by (simp add: mp_binary_def n_def Let_def)
    show ?thesis
      using f with_length_be [of n 4 "x @ rest" read_bin] n0 3 read_bin_bytes [of x rest]
      by (simp add: Let_def n_def)
  next
    case 4
    then show ?thesis using assms by (simp add: mp_binary_def n_def Let_def)
  qed
qed

lemma decode_array_header:
  assumes "mp_array_header (int n) = Inr header"
  shows "mp_decode_value (Suc fuel) (header @ bs)
           = (case mp_decode_items fuel n bs of
                Inl e \<Rightarrow> Inl e | Inr (vs, rest) \<Rightarrow> Inr (JArray vs, rest))"
proof -
  consider "int n < 16" | "16 \<le> int n" "int n < 0x10000"
    | "0x10000 \<le> int n" "int n < 0x100000000" | "0x100000000 \<le> int n"
    by linarith
  then show ?thesis
  proof cases
    case 1
    then have header: "header = [word_of_int (0x90 + int n)]"
      using assms by (simp add: mp_array_header_def)
    have u: "unat (word_of_int (0x90 + int n) :: 8 word) = 0x90 + n"
      using 1 unat_byte [of "0x90 + int n"] by simp
    have "mp_decode_value (Suc fuel) (word_of_int (0x90 + int n) # bs)
        = (case mp_decode_items fuel (unat (word_of_int (0x90 + int n) :: 8 word) - 0x90) bs of
             Inl e \<Rightarrow> Inl e | Inr (vs, rest) \<Rightarrow> Inr (JArray vs, rest))"
      using 1 u by (intro head_fixarray) simp_all
    then show ?thesis using header u by (simp del: mp_decode_value.simps)
  next
    case 2
    then have header: "header = 0xdc # be 2 (int n)"
      using assms by (simp add: mp_array_header_def)
    show ?thesis
      using header with_length_be [of "int n" 2 bs "mp_decode_items fuel"] 2
      by (simp add: Let_def)
  next
    case 3
    then have header: "header = 0xdd # be 4 (int n)"
      using assms by (simp add: mp_array_header_def)
    show ?thesis
      using header with_length_be [of "int n" 4 bs "mp_decode_items fuel"] 3
      by (simp add: Let_def)
  next
    case 4
    then show ?thesis using assms by (simp add: mp_array_header_def)
  qed
qed

lemma decode_map_header:
  assumes "mp_map_header (int n) = Inr header"
  shows "mp_decode_value (Suc fuel) (header @ bs)
           = (case mp_decode_props fuel n [] bs of
                Inl e \<Rightarrow> Inl e | Inr (kvs, rest) \<Rightarrow> Inr (JObject kvs, rest))"
proof -
  consider "int n < 16" | "16 \<le> int n" "int n < 0x10000"
    | "0x10000 \<le> int n" "int n < 0x100000000" | "0x100000000 \<le> int n"
    by linarith
  then show ?thesis
  proof cases
    case 1
    then have header: "header = [word_of_int (0x80 + int n)]"
      using assms by (simp add: mp_map_header_def)
    have u: "unat (word_of_int (0x80 + int n) :: 8 word) = 0x80 + n"
      using 1 unat_byte [of "0x80 + int n"] by simp
    have "mp_decode_value (Suc fuel) (word_of_int (0x80 + int n) # bs)
        = (case mp_decode_props fuel (unat (word_of_int (0x80 + int n) :: 8 word) - 0x80) [] bs of
             Inl e \<Rightarrow> Inl e | Inr (kvs, rest) \<Rightarrow> Inr (JObject kvs, rest))"
      using 1 u by (intro head_fixmap) simp_all
    then show ?thesis using header u by (simp del: mp_decode_value.simps)
  next
    case 2
    then have header: "header = 0xde # be 2 (int n)"
      using assms by (simp add: mp_map_header_def)
    show ?thesis
      using header with_length_be [of "int n" 2 bs "\<lambda>n. mp_decode_props fuel n []"] 2
      by (simp add: Let_def)
  next
    case 3
    then have header: "header = 0xdf # be 4 (int n)"
      using assms by (simp add: mp_map_header_def)
    show ?thesis
      using header with_length_be [of "int n" 4 bs "\<lambda>n. mp_decode_props fuel n []"] 3
      by (simp add: Let_def)
  next
    case 4
    then show ?thesis using assms by (simp add: mp_map_header_def)
  qed
qed

lemma mp_then_Inr:
  "mp_then a b = Inr f \<longleftrightarrow> (\<exists>x y. a = Inr x \<and> b = Inr y \<and> f = x @ y)"
  by (auto simp: mp_then_def split: sum.splits)

lemma mp_number_nonempty: "mp_number n = Inr f \<Longrightarrow> f \<noteq> []"
  by (auto simp: mp_number_def split: if_splits)

lemma mp_string_nonempty: "mp_string s = Inr f \<Longrightarrow> f \<noteq> []"
  by (auto simp: mp_string_def Let_def split: if_splits)

lemma mp_binary_nonempty: "mp_binary x = Inr f \<Longrightarrow> f \<noteq> []"
  by (auto simp: mp_binary_def Let_def split: if_splits)

lemma mp_array_header_nonempty: "mp_array_header n = Inr f \<Longrightarrow> f \<noteq> []"
  by (auto simp: mp_array_header_def split: if_splits)

lemma mp_map_header_nonempty: "mp_map_header n = Inr f \<Longrightarrow> f \<noteq> []"
  by (auto simp: mp_map_header_def split: if_splits)

lemma decode_items:
  assumes each: "\<And>v d f fuel rest. v \<in> set vs \<Longrightarrow> mp_encode_at d v = Inr f
      \<Longrightarrow> length f \<le> fuel \<Longrightarrow> mp_decode_value fuel (f @ rest) = Inr (v, rest)"
  shows "mp_encode_items d vs = Inr f \<Longrightarrow> length f \<le> fuel
         \<Longrightarrow> mp_decode_items fuel (length vs) (f @ rest) = Inr (vs, rest)"
  using each
proof (induction vs arbitrary: f)
  case Nil
  then show ?case by simp
next
  case (Cons v vs)
  from Cons.prems(1) obtain x y where x: "mp_encode_at d v = Inr x"
    and y: "mp_encode_items d vs = Inr y" and f: "f = x @ y"
    by (auto simp: mp_then_Inr)
  have "mp_decode_value fuel (x @ (y @ rest)) = Inr (v, y @ rest)"
    using Cons.prems(3) [of v d x fuel "y @ rest"] x f Cons.prems(2) by simp
  moreover have "mp_decode_items fuel (length vs) (y @ rest) = Inr (vs, rest)"
    using Cons.IH [OF y] Cons.prems(2,3) f by simp
  ultimately show ?case using f by simp
qed

lemma assign_new: "map_of acc k = None \<Longrightarrow> assign acc k v = acc @ [(k, v)]"
  by (simp add: assign_def)

lemma decode_props:
  assumes each: "\<And>k v d f fuel rest. (k, v) \<in> set kvs \<Longrightarrow> mp_encode_at d v = Inr f
      \<Longrightarrow> length f \<le> fuel \<Longrightarrow> mp_decode_value fuel (f @ rest) = Inr (v, rest)"
    and encoded: "mp_encode_props d kvs = Inr f"
    and enough: "length f \<le> fuel"
    and keys: "distinct (map fst acc @ map fst kvs)"
    and proto: "''__proto__'' \<notin> set (map fst kvs)"
  shows "mp_decode_props fuel (length kvs) acc (f @ rest) = Inr (acc @ kvs, rest)"
  using assms
proof (induction kvs arbitrary: f acc)
  case Nil
  then show ?case by simp
next
  case (Cons kv kvs)
  obtain k v where kv: "kv = (k, v)" by (cases kv)
  from Cons.prems(2) kv obtain ks x y where ks: "mp_string k = Inr ks"
    and x: "mp_encode_at d v = Inr x" and y: "mp_encode_props d kvs = Inr y"
    and f: "f = (ks @ x) @ y"
    by (auto simp: mp_then_Inr)
  have "ks \<noteq> []" using mp_string_nonempty [OF ks] .
  then obtain fuel' where fuel: "fuel = Suc fuel'"
    using Cons.prems(3) f by (cases fuel) auto
  have key: "mp_decode_value fuel (ks @ (x @ y @ rest)) = Inr (JString k, x @ y @ rest)"
    using decode_string [OF ks] fuel by simp
  have val: "mp_decode_value fuel (x @ (y @ rest)) = Inr (v, y @ rest)"
    using Cons.prems(1) [of k v d x fuel "y @ rest"] x f kv Cons.prems(3) by simp
  have not_proto: "k \<noteq> ''__proto__''"
    using Cons.prems(5) kv by auto
  have new: "map_of acc k = None"
    using Cons.prems(4) kv by (auto simp: map_of_eq_None_iff)
  have each': "mp_decode_value fuel (f @ rest) = Inr (v, rest)"
    if "(k, v) \<in> set kvs" and "mp_encode_at d v = Inr f" and "length f \<le> fuel"
    for k v d f fuel rest
    using Cons.prems(1) [of k v d f fuel rest] that by simp
  have enough': "length y \<le> fuel"
    using Cons.prems(3) f by simp
  have keys': "distinct (map fst (acc @ [(k, v)]) @ map fst kvs)"
    using Cons.prems(4) kv by auto
  have proto': "''__proto__'' \<notin> set (map fst kvs)"
    using Cons.prems(5) by simp
  have "mp_decode_props fuel (length kvs) (acc @ [(k, v)]) (y @ rest)
      = Inr ((acc @ [(k, v)]) @ kvs, rest)"
    using Cons.IH [OF each' y enough' keys' proto'] by simp
  then show ?case
    using f kv key val not_proto assign_new [OF new] by simp
qed

lemma mp_roundtrip_value:
  "plain v \<Longrightarrow> mp_encode_at d v = Inr f \<Longrightarrow> length f \<le> fuel
   \<Longrightarrow> mp_decode_value fuel (f @ rest) = Inr (v, rest)"
proof (induction v arbitrary: d f fuel rest)
  case JUndefined
  then show ?case by simp
next
  case JNull
  then have "f = [0xc0]" by (simp split: if_splits)
  moreover obtain fuel' where "fuel = Suc fuel'" using JNull.prems(3) calculation by (cases fuel) auto
  ultimately show ?case by (simp add: Let_def)
next
  case (JBool b)
  then have f: "f = [if b then 0xc3 else 0xc2]" by (simp split: if_splits)
  moreover obtain fuel' where "fuel = Suc fuel'" using JBool.prems(3) f by (cases fuel) auto
  ultimately show ?case by (cases b) (simp_all add: Let_def)
next
  case (JNumber n)
  then have n: "mp_number n = Inr f" by (simp split: if_splits)
  obtain fuel' where "fuel = Suc fuel'"
    using JNumber.prems(3) mp_number_nonempty [OF n] by (cases fuel) auto
  then show ?case using decode_number [OF n] by simp
next
  case JNaN
  then show ?case by (simp split: if_splits)
next
  case (JString s)
  then have s: "mp_string s = Inr f" by (simp split: if_splits)
  obtain fuel' where "fuel = Suc fuel'"
    using JString.prems(3) mp_string_nonempty [OF s] by (cases fuel) auto
  then show ?case using decode_string [OF s] by simp
next
  case (JArray vs)
  from JArray.prems(2) obtain header body where
    header: "mp_array_header (int (length vs)) = Inr header"
    and body: "mp_encode_items (Suc d) vs = Inr body" and f: "f = header @ body"
    by (auto simp: mp_then_Inr split: if_splits)
  have "header \<noteq> []" using mp_array_header_nonempty [OF header] .
  then obtain fuel' where fuel: "fuel = Suc fuel'" and enough: "length body \<le> fuel'"
    using JArray.prems(3) f by (cases fuel; cases header) auto
  have each: "mp_decode_value fuel (f @ rest) = Inr (v, rest)"
    if "v \<in> set vs" and "mp_encode_at d v = Inr f" and "length f \<le> fuel" for v d f fuel rest
    using JArray.IH [OF that(1) _ that(2,3)] JArray.prems(1) that(1) by (simp add: list_all_iff)
  have "mp_decode_items fuel' (length vs) (body @ rest) = Inr (vs, rest)"
    using decode_items [OF each body enough] by simp
  then show ?case
    using decode_array_header [OF header, of fuel' "body @ rest"] f fuel by simp
next
  case (JObject kvs)
  from JObject.prems(2) obtain header body where
    header: "mp_map_header (int (length kvs)) = Inr header"
    and body: "mp_encode_props (Suc d) kvs = Inr body" and f: "f = header @ body"
    by (auto simp: mp_then_Inr split: if_splits)
  have "header \<noteq> []" using mp_map_header_nonempty [OF header] .
  then obtain fuel' where fuel: "fuel = Suc fuel'" and enough: "length body \<le> fuel'"
    using JObject.prems(3) f by (cases fuel; cases header) auto
  have each: "mp_decode_value fuel (f @ rest) = Inr (v, rest)"
    if "(k, v) \<in> set kvs" and "mp_encode_at d v = Inr f" and "length f \<le> fuel"
    for k v d f fuel rest
  proof -
    have "plain v" using JObject.prems(1) that(1) by (auto simp: list_all_iff)
    then show ?thesis using JObject.IH [of "(k, v)" v] that by simp
  qed
  have "mp_decode_props fuel' (length kvs) [] (body @ rest) = Inr ([] @ kvs, rest)"
    using decode_props [where kvs = kvs and acc = "[]" and rest = rest, OF each body enough]
      JObject.prems(1)
    by simp
  then show ?case
    using decode_map_header [OF header, of fuel' "body @ rest"] f fuel by simp
next
  case (JBinary x)
  then have x: "mp_binary x = Inr f" by (simp split: if_splits)
  obtain fuel' where "fuel = Suc fuel'"
    using JBinary.prems(3) mp_binary_nonempty [OF x] by (cases fuel) auto
  then show ?case using decode_binary [OF x] by simp
qed

lemma mp_roundtrip: "plain v \<Longrightarrow> mp_encode v = Inr f \<Longrightarrow> mp_decode f = Inr v"
  using mp_roundtrip_value [of v 1 f "length f" "[]"]
  by (simp add: mp_encode_def mp_decode_def)

section \<open>Properties of the codec\<close>

lemma encode_ping: "encodeMessage mp_encode 1700000000000 ping_body = Inr ping_frame"
  by code_simp

lemma decode_ping:
  "decodeMessage mp_decode ping_frame
     = Inr (JObject [(''t'', JNumber 1700000000000), (''m'', JString ''connection::ping/v1'')])"
  by code_simp

lemma decode_reserved_byte:
  "decodeMessage mp_decode [0xc1] = Inl (DecodeError ''Unrecognized type byte'')"
  by code_simp

lemma parse_shape_keys:
  "parse_shape shape v = Inr out \<Longrightarrow> set (map fst out) \<subseteq> set (map fst shape)"
proof (induction shape arbitrary: out)
  case Nil
  then show ?case by simp
next
  case (Cons ks shape)
  obtain k s where ks: "ks = (k, s)" by (cases ks)
  from Cons.prems ks obtain w rest where
    w: "parse s (get_prop v k) = Inr w" and rest: "parse_shape shape v = Inr rest"
    and out: "out = (if w \<noteq> JUndefined \<or> has_key v k then (k, w) # rest else rest)"
    by (auto split: sum.splits)
  from Cons.IH [OF rest] out ks show ?case by auto
qed

lemma parse_shape_distinct:
  "distinct (map fst shape) \<Longrightarrow> parse_shape shape v = Inr out \<Longrightarrow> distinct (map fst out)"
proof (induction shape arbitrary: out)
  case Nil
  then show ?case by simp
next
  case (Cons ks shape)
  obtain k s where ks: "ks = (k, s)" by (cases ks)
  from Cons.prems ks obtain w rest where
    w: "parse s (get_prop v k) = Inr w" and rest: "parse_shape shape v = Inr rest"
    and out: "out = (if w \<noteq> JUndefined \<or> has_key v k then (k, w) # rest else rest)"
    by (auto split: sum.splits)
  have "distinct (map fst rest)" using Cons.IH [OF _ rest] Cons.prems(1) by simp
  moreover have "k \<notin> set (map fst rest)"
    using parse_shape_keys [OF rest] Cons.prems(1) ks by auto
  ultimately show ?case using out by simp
qed

lemma parse_shape_field:
  "distinct (map fst shape) \<Longrightarrow> parse_shape shape v = Inr out \<Longrightarrow> (k, s) \<in> set shape
   \<Longrightarrow> parse s (get_prop v k) = Inr (get_prop (JObject out) k)"
proof (induction shape arbitrary: out)
  case Nil
  then show ?case by simp
next
  case (Cons ks shape)
  obtain k' s' where ks: "ks = (k', s')" by (cases ks)
  from Cons.prems(2) ks obtain w rest where
    w: "parse s' (get_prop v k') = Inr w" and rest: "parse_shape shape v = Inr rest"
    and out: "out = (if w \<noteq> JUndefined \<or> has_key v k' then (k', w) # rest else rest)"
    by (auto split: sum.splits)
  have fresh: "k' \<notin> set (map fst rest)"
    using parse_shape_keys [OF rest] Cons.prems(1) ks by auto
  show ?case
  proof (cases "(k, s) = (k', s')")
    case True
    have "get_prop (JObject out) k' = w"
    proof (cases "w \<noteq> JUndefined \<or> has_key v k'")
      case True
      then show ?thesis using out by simp
    next
      case False
      then have "out = rest" and "w = JUndefined" using out by auto
      moreover have "map_of rest k' = None" using fresh by (simp add: map_of_eq_None_iff)
      ultimately show ?thesis by simp
    qed
    then show ?thesis using True w by simp
  next
    case False
    then have mem: "(k, s) \<in> set shape" using Cons.prems(3) ks by auto
    then have "k \<noteq> k'" using Cons.prems(1) ks by force
    then have "get_prop (JObject out) k = get_prop (JObject rest) k" using out by simp
    moreover have "parse s (get_prop v k) = Inr (get_prop (JObject rest) k)"
      using Cons.IH [OF _ rest mem] Cons.prems(1) by simp
    ultimately show ?thesis by simp
  qed
qed

lemma parse_shape_fails:
  "(k, s) \<in> set shape \<Longrightarrow> parse s (get_prop v k) = Inl i \<Longrightarrow> \<exists>j. parse_shape shape v = Inl j"
  by (induction shape) (auto split: sum.splits)

lemma parse_shape_succeeds:
  "(\<And>k s. (k, s) \<in> set shape \<Longrightarrow> \<exists>w. parse s (get_prop v k) = Inr w)
   \<Longrightarrow> \<exists>out. parse_shape shape v = Inr out"
proof (induction shape)
  case Nil
  show ?case by simp
next
  case (Cons ks shape)
  obtain k s where ks: "ks = (k, s)" by (cases ks)
  obtain w where "parse s (get_prop v k) = Inr w" using Cons.prems [of k s] ks by auto
  moreover obtain rest where "parse_shape shape v = Inr rest" using Cons by auto
  ultimately show ?case using ks by simp
qed

lemma parse_shape_has_key:
  "parse_shape shape v = Inr out \<Longrightarrow> (k, s) \<in> set shape \<Longrightarrow> has_key v k
   \<Longrightarrow> k \<in> set (map fst out)"
proof (induction shape arbitrary: out)
  case Nil
  then show ?case by simp
next
  case (Cons ks shape)
  obtain k' s' where ks: "ks = (k', s')" by (cases ks)
  from Cons.prems(1) ks obtain w rest where
    rest: "parse_shape shape v = Inr rest"
    and out: "out = (if w \<noteq> JUndefined \<or> has_key v k' then (k', w) # rest else rest)"
    by (auto split: sum.splits)
  show ?case
  proof (cases "k = k'")
    case True
    then show ?thesis using out Cons.prems(3) by simp
  next
    case False
    then have "(k, s) \<in> set shape" using Cons.prems(2) ks by simp
    then have "k \<in> set (map fst rest)" using Cons.IH [OF rest] Cons.prems(3) by simp
    then show ?thesis using out by simp
  qed
qed

lemma parse_union_picks:
  "parse_union d opts v = Inr w
   \<Longrightarrow> \<exists>opt l. opt \<in> set opts \<and> discriminator_of d opt = Some l \<and> get_prop v d = JString l
         \<and> parse opt v = Inr w"
  by (induction opts) (auto split: option.splits if_splits)

lemma parse_union_first:
  "find (\<lambda>opt. discriminator_of d opt = Some l) opts = Some opt \<Longrightarrow> get_prop v d = JString l
   \<Longrightarrow> parse_union d opts v = parse opt v"
  by (induction opts) (auto split: option.splits if_splits)

lemma collect_Inr:
  "collect rs = Inr ws \<Longrightarrow> rs = map Inr ws"
proof (induction rs arbitrary: ws)
  case Nil
  then show ?case by simp
next
  case (Cons r rs)
  then show ?case by (cases r) (auto split: sum.splits)
qed

lemma parse_conforms:
  "simple_zod s \<Longrightarrow> parse s v = Inr w \<Longrightarrow> conforms s w"
proof (induction s arbitrary: v w)
  case ZString
  then show ?case by (auto split: jsvalue.splits)
next
  case ZUuid
  then show ?case by (auto split: jsvalue.splits if_splits)
next
  case ZNumber
  then show ?case by (auto split: jsvalue.splits)
next
  case (ZOptional s)
  then show ?case by (auto split: if_splits)
next
  case (ZEnum vals)
  then show ?case by (auto split: jsvalue.splits if_splits)
next
  case (ZLiteral l)
  then show ?case by (auto split: if_splits)
next
  case (ZArray s)
  from ZArray.prems(2) obtain vs ws where
    v: "v = JArray vs" and ws: "collect (map (parse s) vs) = Inr ws" and w: "w = JArray ws"
    by (auto split: jsvalue.splits sum.splits)
  have each: "map (parse s) vs = map Inr ws"
    using collect_Inr [OF ws] .
  have "conforms s x" if "x \<in> set ws" for x
  proof -
    from that have "Inr x \<in> set (map (parse s) vs)" using each by simp
    then obtain y where "parse s y = Inr x" by auto
    then show ?thesis using ZArray.IH ZArray.prems(1) by simp
  qed
  then show ?case using w by (simp add: list_all_iff)
next
  case (ZObject shape)
  from ZObject.prems(2) obtain out where
    out: "parse_shape shape v = Inr out" and w: "w = JObject out"
    by (auto split: jsvalue.splits sum.splits)
  have dist: "distinct (map fst shape)" using ZObject.prems(1) by simp
  have "conforms s' (get_prop w k)" if "(k, s') \<in> set shape" for k s'
  proof -
    have "parse s' (get_prop v k) = Inr (get_prop w k)"
      using parse_shape_field [OF dist out that] w by simp
    moreover have "simple_zod s'"
      using ZObject.prems(1) that by (auto simp: list_all_iff)
    ultimately show ?thesis
      using ZObject.IH [of "(k, s')" s'] that by simp
  qed
  then have "list_all (\<lambda>ks. conforms (snd ks) (get_prop w (fst ks))) shape"
    by (auto simp: list_all_iff)
  moreover have "distinct (map fst out)"
    using parse_shape_distinct [OF dist out] .
  moreover have "list_all (\<lambda>k. k \<in> set (map fst shape)) (map fst out)"
    using parse_shape_keys [OF out] by (auto simp: list_all_iff)
  ultimately show ?case using w by simp
next
  case (ZDiscriminatedUnion d opts)
  from ZDiscriminatedUnion.prems(2) have "parse_union d opts v = Inr w"
    by (auto split: jsvalue.splits)
  then obtain opt where opt: "opt \<in> set opts" and p: "parse opt v = Inr w"
    using parse_union_picks by blast
  have "simple_zod opt" using ZDiscriminatedUnion.prems(1) opt by (auto simp: list_all_iff)
  then have "conforms opt w" using ZDiscriminatedUnion.IH [OF opt _ p] by simp
  then show ?case using opt by (auto simp: list_ex_iff)
next
  case (ZAnd l r)
  then show ?case by simp
qed

lemma simple_MessageBodySchema: "simple_zod MessageBodySchema"
  by code_simp

lemma options_are_objects:
  "list_all (\<lambda>opt. opt = ZObject (shape_of opt) \<and> ''t'' \<notin> set (map fst (shape_of opt)))
     MessageBodyOptions"
  by code_simp

lemma options_tags: "map (discriminator_of ''m'') MessageBodyOptions = map Some message_tags"
  by code_simp

lemma parse_meta:
  "parse MessageMetaSchema v = Inr a
   \<Longrightarrow> \<exists>n. a = JObject [(''t'', JNumber n)] \<and> get_prop v ''t'' = JNumber n"
  unfolding MessageMetaSchema_def
  by (auto split: jsvalue.splits sum.splits if_splits)

lemma parse_body:
  assumes "parse MessageBodySchema v = Inr b"
  shows "\<exists>out tag. b = JObject out \<and> map_of out ''t'' = None
           \<and> conforms MessageBodySchema b \<and> tag \<in> set message_tags
           \<and> get_prop v ''m'' = JString tag \<and> get_prop b ''m'' = JString tag"
proof -
  from assms have "parse_union ''m'' MessageBodyOptions v = Inr b"
    unfolding MessageBodySchema_def by (auto split: jsvalue.splits)
  then obtain opt l where opt: "opt \<in> set MessageBodyOptions"
    and disc: "discriminator_of ''m'' opt = Some l"
    and tag: "get_prop v ''m'' = JString l"
    and p: "parse opt v = Inr b"
    using parse_union_picks by blast
  define shape where "shape = shape_of opt"
  have obj: "opt = ZObject shape" and not: "''t'' \<notin> set (map fst shape)"
    using options_are_objects opt by (auto simp: list_all_iff shape_def)
  from p obj obtain out where out: "parse_shape shape v = Inr out" and b: "b = JObject out"
    by (auto split: jsvalue.splits sum.splits)
  have "simple_zod opt"
    using simple_MessageBodySchema opt by (auto simp: MessageBodySchema_def list_all_iff)
  then have dist: "distinct (map fst shape)" using obj by simp
  have "''t'' \<notin> set (map fst out)" using parse_shape_keys [OF out] not by auto
  then have no_t: "map_of out ''t'' = None" by (simp add: map_of_eq_None_iff)
  have "Some l \<in> set (map (discriminator_of ''m'') MessageBodyOptions)"
    using opt disc by force
  then have known: "l \<in> set message_tags" using options_tags by auto
  have "(''m'', ZLiteral l) \<in> set shape"
    using disc obj by (auto split: option.splits zod.splits dest: map_of_SomeD)
  then have "parse (ZLiteral l) (get_prop v ''m'') = Inr (get_prop (JObject out) ''m'')"
    using parse_shape_field [OF dist out] by blast
  then have kept: "get_prop b ''m'' = JString l" using tag b by simp
  have "conforms MessageBodySchema b"
    using parse_conforms [OF simple_MessageBodySchema assms] .
  then show ?thesis using b no_t known tag kept by blast
qed

lemma merge_meta:
  assumes "map_of out ''t'' = None"
  shows "mergeValues (JObject [(''t'', x)]) (JObject out) = Some (JObject ((''t'', x) # out))"
proof -
  have "\<forall>kv \<in> set out. fst kv \<noteq> ''t''"
    using assms by (force simp: map_of_eq_None_iff)
  then have "filter (\<lambda>(k, v). map_of [(''t'', x)] k = None) out = out"
    by (auto simp: filter_id_conv)
  then show ?thesis using assms by simp
qed

lemma conforms_message:
  assumes "conforms MessageBodySchema (JObject out)"
  shows "conforms MessageSchema (JObject ((''t'', JNumber n) # out))"
proof -
  have "Suc 0 \<in> set [0..<Suc (length ((''t'', JNumber n) # out))]"
    unfolding set_upt by simp
  moreover have "conforms MessageMetaSchema (JObject (take (Suc 0) ((''t'', JNumber n) # out)))"
    by (simp add: MessageMetaSchema_def)
  moreover have "conforms MessageBodySchema (JObject (drop (Suc 0) ((''t'', JNumber n) # out)))"
    using assms by simp
  ultimately show ?thesis
    unfolding MessageSchema_def conforms.simps jsvalue.case list_ex_iff by blast
qed

lemma parse_message:
  assumes "parse MessageSchema v = Inr message"
  shows "conforms MessageSchema message
         \<and> (\<exists>tag \<in> set message_tags. get_prop message ''m'' = JString tag
               \<and> get_prop v ''m'' = JString tag)
         \<and> (\<exists>n. get_prop message ''t'' = JNumber n \<and> get_prop v ''t'' = JNumber n)"
proof -
  from assms obtain a b where a: "parse MessageMetaSchema v = Inr a"
    and b: "parse MessageBodySchema v = Inr b" and m: "mergeValues a b = Some message"
    unfolding MessageSchema_def by (auto split: sum.splits option.splits)
  from parse_meta [OF a] obtain n where a': "a = JObject [(''t'', JNumber n)]"
    and t: "get_prop v ''t'' = JNumber n" by blast
  from parse_body [OF b] obtain out tag where b': "b = JObject out"
    and no_t: "map_of out ''t'' = None" and c: "conforms MessageBodySchema b"
    and known: "tag \<in> set message_tags" and tag: "get_prop v ''m'' = JString tag"
    and kept: "get_prop b ''m'' = JString tag" by blast
  have msg: "message = JObject ((''t'', JNumber n) # out)"
    using m merge_meta [OF no_t, of "JNumber n"] a' b' by simp
  have "conforms MessageSchema message"
    using conforms_message c b' msg by simp
  moreover have "get_prop message ''m'' = JString tag"
    using kept b' msg by simp
  moreover have "get_prop message ''t'' = JNumber n"
    using msg by simp
  ultimately show ?thesis using known tag t by blast
qed

lemma body_failure_fails_message:
  "parse MessageBodySchema v = Inl i \<Longrightarrow> \<exists>j. parse MessageSchema v = Inl j"
  by (simp add: MessageSchema_def split: sum.splits)

lemma variant_field_failure:
  assumes tag: "get_prop v ''m'' = JString tag"
    and fields: "variant_fields tag = Some shape"
    and field: "(k, s) \<in> set shape"
    and bad: "parse s (get_prop v k) = Inl i"
  shows "\<exists>j. parse MessageSchema v = Inl j"
proof -
  from fields obtain opt where
    first: "find (\<lambda>opt. discriminator_of ''m'' opt = Some tag) MessageBodyOptions = Some opt"
    and shape: "shape = shape_of opt"
    by (auto simp: variant_fields_def)
  have "opt \<in> set MessageBodyOptions"
    using first by (auto simp: find_Some_iff)
  then have obj: "opt = ZObject shape"
    using options_are_objects shape by (auto simp: list_all_iff)
  have union: "parse_union ''m'' MessageBodyOptions v = parse opt v"
    using parse_union_first [OF first tag] .
  obtain j where "parse_shape shape v = Inl j"
    using parse_shape_fails [OF field bad] by blast
  then have "\<exists>j. parse opt v = Inl j"
    using obj by (auto split: jsvalue.splits)
  then have "\<exists>j. parse MessageBodySchema v = Inl j"
    using union by (auto simp: MessageBodySchema_def split: jsvalue.splits)
  then show ?thesis using body_failure_fails_message by blast
qed

lemma required_fields_reject_undefined:
  "list_all
     (\<lambda>opt. list_all (\<lambda>ks. snd ks = ZOptional ZString \<or> isl (parse (snd ks) JUndefined))
        (shape_of opt))
     MessageBodyOptions"
  by code_simp

lemma missing_field_failure:
  assumes tag: "get_prop v ''m'' = JString tag"
    and fields: "variant_fields tag = Some shape"
    and field: "(k, s) \<in> set shape"
    and required: "s \<noteq> ZOptional ZString"
    and missing: "\<not> has_key v k"
  shows "\<exists>j. parse MessageSchema v = Inl j"
proof -
  from fields obtain opt where
    first: "find (\<lambda>opt. discriminator_of ''m'' opt = Some tag) MessageBodyOptions = Some opt"
    and shape: "shape = shape_of opt"
    by (auto simp: variant_fields_def)
  have opt: "opt \<in> set MessageBodyOptions"
    using first by (auto simp: find_Some_iff)
  have every: "\<forall>opt \<in> set MessageBodyOptions. \<forall>ks \<in> set (shape_of opt).
      snd ks = ZOptional ZString \<or> isl (parse (snd ks) JUndefined)"
    using required_fields_reject_undefined by (simp add: list_all_iff)
  have "(k, s) \<in> set (shape_of opt)"
    using field shape by simp
  with every opt have "snd (k, s) = ZOptional ZString \<or> isl (parse (snd (k, s)) JUndefined)"
    by blast
  then have "isl (parse s JUndefined)"
    using required by simp
  then obtain i where "parse s JUndefined = Inl i"
    by (cases "parse s JUndefined") simp_all
  moreover have "get_prop v k = JUndefined"
    using missing by (cases v) (auto split: option.splits)
  ultimately show ?thesis
    using variant_field_failure [OF tag fields field] by simp
qed

lemma decodeMessage_Inr:
  "decodeMessage decode frame = Inr message
   \<Longrightarrow> \<exists>decoded. decode frame = Inr decoded \<and> parse MessageSchema decoded = Inr message"
  by (auto simp: decodeMessage_def split: sum.splits)

lemma decodeMessage_Inl:
  "decode frame = Inr decoded \<Longrightarrow> parse MessageSchema decoded = Inl j
   \<Longrightarrow> decodeMessage decode frame = Inl (ZodError j)"
  by (simp add: decodeMessage_def)

text \<open>
  Claim C1. Whatever the bytes and whatever \<^verbatim>\<open>msgpack.decode\<close> makes of them,
  \<^verbatim>\<open>decodeMessage\<close> either fails or returns a value of exactly the form \<open>MessageSchema\<close>
  describes: the field \<open>t\<close> holding a number, then the fields of one variant and nothing
  else, with \<open>m\<close> one of the known tags. It fails when the deserialiser throws, when the
  tag of the decoded value is not a known one, when \<open>t\<close> is not a number, when a field
  of the variant the tag names is missing (every field but the login's \<open>api_key\<close> is
  required), and when a field holds a value its field schema rejects (a value of the
  wrong type, a string outside the enumeration, an identifier that is no UUID). A
  failure is an error value: it carries no message.
\<close>

theorem decodeMessage_fails_closed:
  "(case decodeMessage decode frame of
      Inl e \<Rightarrow> True
    | Inr message \<Rightarrow>
        conforms MessageSchema message
        \<and> (\<exists>tag \<in> set message_tags. get_prop message ''m'' = JString tag)
        \<and> (\<exists>n. get_prop message ''t'' = JNumber n))
   \<and> (\<forall>e. decode frame = Inl e \<longrightarrow> decodeMessage decode frame = Inl (DecodeError e))
   \<and> (\<forall>decoded. decode frame = Inr decoded
          \<and> (\<forall>tag \<in> set message_tags. get_prop decoded ''m'' \<noteq> JString tag)
        \<longrightarrow> (\<exists>e. decodeMessage decode frame = Inl e))
   \<and> (\<forall>decoded. decode frame = Inr decoded \<and> (\<forall>n. get_prop decoded ''t'' \<noteq> JNumber n)
        \<longrightarrow> (\<exists>e. decodeMessage decode frame = Inl e))
   \<and> (\<forall>decoded tag shape k s. decode frame = Inr decoded
          \<and> get_prop decoded ''m'' = JString tag \<and> variant_fields tag = Some shape
          \<and> (k, s) \<in> set shape \<and> s \<noteq> ZOptional ZString \<and> \<not> has_key decoded k
        \<longrightarrow> (\<exists>e. decodeMessage decode frame = Inl e))
   \<and> (\<forall>decoded tag shape k s i. decode frame = Inr decoded
          \<and> get_prop decoded ''m'' = JString tag \<and> variant_fields tag = Some shape
          \<and> (k, s) \<in> set shape \<and> parse s (get_prop decoded k) = Inl i
        \<longrightarrow> (\<exists>e. decodeMessage decode frame = Inl e))"
proof -
  have accepted: "case decodeMessage decode frame of
      Inl e \<Rightarrow> True
    | Inr message \<Rightarrow>
        conforms MessageSchema message
        \<and> (\<exists>tag \<in> set message_tags. get_prop message ''m'' = JString tag)
        \<and> (\<exists>n. get_prop message ''t'' = JNumber n)"
  proof (cases "decodeMessage decode frame")
    case (Inl e)
    then show ?thesis by simp
  next
    case (Inr message)
    then obtain decoded where "parse MessageSchema decoded = Inr message"
      using decodeMessage_Inr by blast
    then show ?thesis using Inr parse_message by fastforce
  qed
  have thrown: "decodeMessage decode frame = Inl (DecodeError e)" if "decode frame = Inl e" for e
    using that by (simp add: decodeMessage_def)
  have rejected: "\<exists>e. decodeMessage decode frame = Inl e"
    if "decode frame = Inr decoded" and "\<And>message. parse MessageSchema decoded \<noteq> Inr message"
    for decoded
    using that by (cases "parse MessageSchema decoded") (auto simp: decodeMessage_def)
  have unknown_tag: "\<exists>e. decodeMessage decode frame = Inl e"
    if "decode frame = Inr decoded"
      and "\<forall>tag \<in> set message_tags. get_prop decoded ''m'' \<noteq> JString tag" for decoded
    using rejected [OF that(1)] that(2) parse_message by blast
  have no_time: "\<exists>e. decodeMessage decode frame = Inl e"
    if "decode frame = Inr decoded" and "\<forall>n. get_prop decoded ''t'' \<noteq> JNumber n" for decoded
    using rejected [OF that(1)] that(2) parse_message by blast
  have bad_field: "\<exists>e. decodeMessage decode frame = Inl e"
    if decoded: "decode frame = Inr decoded" and tag: "get_prop decoded ''m'' = JString tag"
      and fields: "variant_fields tag = Some shape" and field: "(k, s) \<in> set shape"
      and bad: "parse s (get_prop decoded k) = Inl i" for decoded tag shape k s i
  proof -
    obtain j where "parse MessageSchema decoded = Inl j"
      using variant_field_failure [OF tag fields field bad] by blast
    then show ?thesis
      using decoded by (simp add: decodeMessage_def)
  qed
  have missing_field: "\<exists>e. decodeMessage decode frame = Inl e"
    if decoded: "decode frame = Inr decoded" and tag: "get_prop decoded ''m'' = JString tag"
      and fields: "variant_fields tag = Some shape" and field: "(k, s) \<in> set shape"
      and required: "s \<noteq> ZOptional ZString" and missing: "\<not> has_key decoded k"
    for decoded tag shape k s
  proof -
    obtain j where "parse MessageSchema decoded = Inl j"
      using missing_field_failure [OF tag fields field required missing] by blast
    then show ?thesis
      using decoded by (simp add: decodeMessage_def)
  qed
  show ?thesis
    using accepted thrown unknown_tag no_time missing_field bad_field by blast
qed

lemma decode_unknown_tag:
  "mp_decode unknown_tag_frame
     = Inr (JObject [(''t'', JNumber 1700000000000), (''m'', JString ''room::nope/v1'')])"
  by code_simp

lemma decode_login_without_username:
  "mp_decode login_without_username_frame
     = Inr (JObject [(''t'', JNumber 1700000000000), (''m'', JString ''connection::login/v1''),
                     (''api_key'', JString ''k'')])"
  by code_simp

lemma decode_ping_without_t:
  "mp_decode ping_without_t_frame = Inr (JObject [(''m'', JString ''connection::ping/v1'')])"
  by code_simp

lemma login_fields:
  "variant_fields ''connection::login/v1''
     = Some [(''username'', ZString), (''api_key'', ZOptional ZString),
             (''m'', ZLiteral ''connection::login/v1'')]"
  by code_simp

theorem decodeMessage_fails_closed_witness:
  "decodeMessage mp_decode ping_frame
     = Inr (JObject [(''t'', JNumber 1700000000000), (''m'', JString ''connection::ping/v1'')])
   \<and> conforms MessageSchema
        (JObject [(''t'', JNumber 1700000000000), (''m'', JString ''connection::ping/v1'')])
   \<and> decodeMessage mp_decode [0xc1] = Inl (DecodeError ''Unrecognized type byte'')
   \<and> (\<exists>e. decodeMessage mp_decode unknown_tag_frame = Inl e)
   \<and> (\<exists>e. decodeMessage mp_decode ping_without_t_frame = Inl e)
   \<and> (\<exists>e. decodeMessage mp_decode login_without_username_frame = Inl e)"
proof -
  have tags: "\<forall>tag \<in> set message_tags.
      get_prop (JObject [(''t'', JNumber 1700000000000), (''m'', JString ''room::nope/v1'')]) ''m''
        \<noteq> JString tag"
    by (simp add: message_tags_def)
  have time: "\<forall>n. get_prop (JObject [(''m'', JString ''connection::ping/v1'')]) ''t'' \<noteq> JNumber n"
    by simp
  have reserved: "mp_decode [0xc1] = Inl ''Unrecognized type byte''"
    by code_simp
  have missing: "parse ZString
      (get_prop (JObject [(''t'', JNumber 1700000000000), (''m'', JString ''connection::login/v1''),
                          (''api_key'', JString ''k'')]) ''username'') = Inl invalid_type"
    by simp
  have field: "(''username'', ZString)
      \<in> set [(''username'', ZString), (''api_key'', ZOptional ZString),
              (''m'', ZLiteral ''connection::login/v1'')]"
    by simp
  have tag: "get_prop (JObject [(''t'', JNumber 1700000000000),
      (''m'', JString ''connection::login/v1''), (''api_key'', JString ''k'')]) ''m''
        = JString ''connection::login/v1''"
    by simp
  note closed = decodeMessage_fails_closed [of mp_decode]
  have accepted: "conforms MessageSchema
      (JObject [(''t'', JNumber 1700000000000), (''m'', JString ''connection::ping/v1'')])"
    using decode_ping closed [of ping_frame] by simp
  have thrown: "decodeMessage mp_decode [0xc1] = Inl (DecodeError ''Unrecognized type byte'')"
    using reserved closed [of "[0xc1]", THEN conjunct2, THEN conjunct1] by blast
  have unknown: "\<exists>e. decodeMessage mp_decode unknown_tag_frame = Inl e"
    using decode_unknown_tag tags
      closed [of unknown_tag_frame, THEN conjunct2, THEN conjunct2, THEN conjunct1]
    by blast
  have untimed: "\<exists>e. decodeMessage mp_decode ping_without_t_frame = Inl e"
    using decode_ping_without_t time
      closed [of ping_without_t_frame, THEN conjunct2, THEN conjunct2, THEN conjunct2,
        THEN conjunct1]
    by blast
  have absent: "\<not> has_key (JObject [(''t'', JNumber 1700000000000),
      (''m'', JString ''connection::login/v1''), (''api_key'', JString ''k'')]) ''username''"
    by simp
  have needed: "ZString \<noteq> ZOptional ZString"
    by simp
  have nameless: "\<exists>e. decodeMessage mp_decode login_without_username_frame = Inl e"
    using decode_login_without_username tag login_fields field absent needed
      closed [of login_without_username_frame, THEN conjunct2, THEN conjunct2, THEN conjunct2,
        THEN conjunct2, THEN conjunct1]
    by blast
  have mistyped: "\<exists>e. decodeMessage mp_decode login_without_username_frame = Inl e"
    using decode_login_without_username tag login_fields field missing
      closed [of login_without_username_frame, THEN conjunct2, THEN conjunct2, THEN conjunct2,
        THEN conjunct2, THEN conjunct2]
    by blast
  show ?thesis
    using decode_ping accepted thrown unknown untimed nameless by simp
qed

lemma same_value_undefined: "same_value w JUndefined \<Longrightarrow> w = JUndefined"
  by (cases w) simp_all

lemma parse_shape_entry:
  "parse_shape shape v = Inr out \<Longrightarrow> (k, w) \<in> set out
   \<Longrightarrow> (\<exists>s. (k, s) \<in> set shape \<and> parse s (get_prop v k) = Inr w)
       \<and> (has_key v k \<or> w \<noteq> JUndefined)"
proof (induction shape arbitrary: out)
  case Nil
  then show ?case by simp
next
  case (Cons ks shape)
  obtain k' s' where ks: "ks = (k', s')" by (cases ks)
  from Cons.prems(1) ks obtain w' rest where
    w': "parse s' (get_prop v k') = Inr w'" and rest: "parse_shape shape v = Inr rest"
    and out: "out = (if w' \<noteq> JUndefined \<or> has_key v k' then (k', w') # rest else rest)"
    by (auto split: sum.splits)
  show ?case
  proof (cases "(k, w) \<in> set rest")
    case True
    then show ?thesis using Cons.IH [OF rest] ks by auto
  next
    case False
    then have "(k, w) = (k', w')" and "w' \<noteq> JUndefined \<or> has_key v k'"
      using Cons.prems(2) out by (auto split: if_splits)
    then show ?thesis using w' ks by auto
  qed
qed

lemma collect_all:
  "(\<And>v. v \<in> set vs \<Longrightarrow> \<exists>w. f v = Inr w \<and> R w v)
   \<Longrightarrow> \<exists>ws. collect (map f vs) = Inr ws \<and> list_all2 R ws vs"
proof (induction vs)
  case Nil
  show ?case by simp
next
  case (Cons v vs)
  obtain w where w: "f v = Inr w" "R w v" using Cons.prems [of v] by auto
  obtain ws where ws: "collect (map f vs) = Inr ws" "list_all2 R ws vs"
    using Cons.IH Cons.prems by auto
  show ?case using w ws by simp
qed

lemma find_distinct:
  "distinct (map f xs) \<Longrightarrow> x \<in> set xs \<Longrightarrow> find (\<lambda>y. f y = f x) xs = Some x"
  by (induction xs) force+

lemma conforms_parse:
  "simple_zod s \<Longrightarrow> conforms s v \<Longrightarrow> \<exists>w. parse s v = Inr w \<and> same_value w v"
proof (induction s arbitrary: v)
  case ZString
  then show ?case by (cases v) simp_all
next
  case ZUuid
  then show ?case by (cases v) simp_all
next
  case ZNumber
  then show ?case by (cases v) simp_all
next
  case (ZOptional s)
  then show ?case by (cases "v = JUndefined") auto
next
  case (ZEnum vals)
  then show ?case by (cases v) simp_all
next
  case (ZLiteral l)
  then show ?case by simp
next
  case (ZArray s)
  from ZArray.prems(2) obtain vs where v: "v = JArray vs" and all: "list_all (conforms s) vs"
    by (cases v) simp_all
  have "\<exists>w. parse s x = Inr w \<and> same_value w x" if "x \<in> set vs" for x
    using ZArray.IH [of x] ZArray.prems(1) all that by (simp add: list_all_iff)
  then obtain ws where "collect (map (parse s) vs) = Inr ws" and "list_all2 same_value ws vs"
    using collect_all [of vs "parse s" same_value] by blast
  then show ?case using v by simp
next
  case (ZObject shape)
  from ZObject.prems(2) obtain kvs where v: "v = JObject kvs"
    by (cases v) simp_all
  have keys_v: "set (map fst kvs) \<subseteq> set (map fst shape)"
    using ZObject.prems(2) v by (auto simp: list_all_iff)
  have fields: "conforms s (get_prop v k)" if "(k, s) \<in> set shape" for k s
    using ZObject.prems(2) v that by (force simp: list_all_iff)
  have dist: "distinct (map fst shape)" using ZObject.prems(1) by simp
  have field: "\<exists>w. parse s (get_prop v k) = Inr w \<and> same_value w (get_prop v k)"
    if "(k, s) \<in> set shape" for k s
  proof -
    have "simple_zod s" using ZObject.prems(1) that by (auto simp: list_all_iff)
    then show ?thesis using ZObject.IH [of "(k, s)" s] fields [OF that] that by simp
  qed
  then obtain out where out: "parse_shape shape v = Inr out"
    using parse_shape_succeeds [of shape v] by blast
  have entry: "same_value w (get_prop v k) \<and> k \<in> set (map fst kvs)"
    if "(k, w) \<in> set out" for k w
  proof -
    from parse_shape_entry [OF out that] obtain s where s: "(k, s) \<in> set shape"
      and w: "parse s (get_prop v k) = Inr w" and why: "has_key v k \<or> w \<noteq> JUndefined"
      by blast
    have same: "same_value w (get_prop v k)" using field [OF s] w by auto
    have "k \<in> set (map fst kvs)"
    proof (rule ccontr)
      assume "k \<notin> set (map fst kvs)"
      then have none: "map_of kvs k = None" by (simp add: map_of_eq_None_iff)
      then have "get_prop v k = JUndefined" and "\<not> has_key v k" using v by simp_all
      then show False using same why same_value_undefined by auto
    qed
    then show ?thesis using same by simp
  qed
  have present: "k \<in> set (map fst out)" if "k \<in> set (map fst kvs)" for k
  proof -
    have "k \<in> fst ` set shape" using keys_v that by auto
    then obtain s where s: "(k, s) \<in> set shape" by force
    have "map_of kvs k \<noteq> None" using that by (simp add: map_of_eq_None_iff)
    then have "has_key v k" using v by simp
    then show ?thesis using parse_shape_has_key [OF out s] by simp
  qed
  have "set (map fst out) = set (map fst kvs)"
    using entry present by force
  moreover have "list_all (\<lambda>kw. same_value (snd kw) (get_prop v (fst kw))) out"
    using entry by (auto simp: list_all_iff)
  ultimately have "same_value (JObject out) v" using v by simp
  then show ?case using out v by simp
next
  case (ZDiscriminatedUnion d opts)
  from ZDiscriminatedUnion.prems(2) obtain opt where opt: "opt \<in> set opts"
    and c: "conforms opt v"
    by (auto simp: list_ex_iff)
  have simple: "simple_zod opt" and some: "discriminator_of d opt \<noteq> None"
    and dist: "distinct (map (discriminator_of d) opts)"
    using ZDiscriminatedUnion.prems(1) opt by (auto simp: list_all_iff)
  from some obtain l where l: "discriminator_of d opt = Some l" by auto
  then obtain shape where shape: "opt = ZObject shape" and lit: "(d, ZLiteral l) \<in> set shape"
    by (cases opt) (auto split: option.splits zod.splits dest: map_of_SomeD)
  from c shape obtain kvs where v: "v = JObject kvs" by (cases v) simp_all
  have "conforms (ZLiteral l) (get_prop v d)"
    using c shape v lit by (auto simp: list_all_iff)
  then have tag: "get_prop v d = JString l" by simp
  have "find (\<lambda>y. discriminator_of d y = discriminator_of d opt) opts = Some opt"
    using find_distinct [OF dist opt] .
  then have "parse_union d opts v = parse opt v"
    using parse_union_first [of d l opts opt v] l tag by simp
  then have "parse (ZDiscriminatedUnion d opts) v = parse opt v" using v by simp
  then show ?case using ZDiscriminatedUnion.IH [OF opt simple c] by simp
next
  case (ZAnd l r)
  then show ?case by simp
qed

lemma filter_other_keys:
  assumes "map_of body k = None"
  shows "filter (\<lambda>(k', v). map_of [(k, x)] k' = None) body = body"
proof -
  have "\<forall>kv \<in> set body. fst kv \<noteq> k"
    using assms by (force simp: map_of_eq_None_iff)
  then show ?thesis by (auto simp: filter_id_conv)
qed

lemma spread_time:
  "map_of body ''t'' = None \<Longrightarrow> spread [(''t'', x)] body = (''t'', x) # body"
  using filter_other_keys [of body "''t''" x] by (simp add: spread_def)

lemma body_has_no_time:
  assumes "conforms MessageBodySchema (JObject body)"
  shows "map_of body ''t'' = None"
proof -
  from assms obtain opt where opt: "opt \<in> set MessageBodyOptions"
    and c: "conforms opt (JObject body)"
    by (auto simp: MessageBodySchema_def list_ex_iff)
  have obj: "opt = ZObject (shape_of opt)" and not: "''t'' \<notin> set (map fst (shape_of opt))"
    using options_are_objects opt by (auto simp: list_all_iff)
  have "set (map fst body) \<subseteq> set (map fst (shape_of opt))"
    using c obj by (cases opt) (auto simp: list_all_iff)
  then have "''t'' \<notin> set (map fst body)" using not by auto
  then show ?thesis by (simp add: map_of_eq_None_iff)
qed

lemma parse_shape_cong:
  "(\<And>k. k \<in> set (map fst shape) \<Longrightarrow> get_prop v k = get_prop v' k \<and> has_key v k = has_key v' k)
   \<Longrightarrow> parse_shape shape v = parse_shape shape v'"
proof (induction shape)
  case Nil
  show ?case by simp
next
  case (Cons ks shape)
  obtain k s where ks: "ks = (k, s)" by (cases ks)
  have here: "get_prop v k = get_prop v' k" "has_key v k = has_key v' k"
    using Cons.prems [of k] ks by simp_all
  have rest: "parse_shape shape v = parse_shape shape v'"
    using Cons.IH Cons.prems by simp
  show ?case
    unfolding ks parse_shape.simps here rest ..
qed

lemma parse_union_cong:
  "get_prop v d = get_prop v' d \<Longrightarrow> (\<And>opt. opt \<in> set opts \<Longrightarrow> parse opt v = parse opt v')
   \<Longrightarrow> parse_union d opts v = parse_union d opts v'"
  by (induction opts) (auto split: option.splits)

lemma parse_body_ignores_time:
  "parse MessageBodySchema (JObject ((''t'', x) # body)) = parse MessageBodySchema (JObject body)"
proof -
  have "parse opt (JObject ((''t'', x) # body)) = parse opt (JObject body)"
    if "opt \<in> set MessageBodyOptions" for opt
  proof -
    have obj: "opt = ZObject (shape_of opt)" and not: "''t'' \<notin> set (map fst (shape_of opt))"
      using options_are_objects that by (auto simp: list_all_iff)
    have other: "k \<noteq> ''t''" if "k \<in> set (map fst (shape_of opt))" for k
    proof
      assume "k = ''t''"
      then show False using not that by simp
    qed
    have "parse_shape (shape_of opt) (JObject ((''t'', x) # body))
        = parse_shape (shape_of opt) (JObject body)"
      by (rule parse_shape_cong) (simp add: other)
    then have "parse (ZObject (shape_of opt)) (JObject ((''t'', x) # body))
        = parse (ZObject (shape_of opt)) (JObject body)"
      by simp
    then show ?thesis using obj by simp
  qed
  then have "parse_union ''m'' MessageBodyOptions (JObject ((''t'', x) # body))
      = parse_union ''m'' MessageBodyOptions (JObject body)"
    by (intro parse_union_cong) simp_all
  then show ?thesis by (simp add: MessageBodySchema_def)
qed

text \<open>
  Claim C2, as the source has it. Take a body of exactly the form of one message variant
  with nothing \<^verbatim>\<open>undefined\<close> in it, and a MessagePack encoder and decoder such that the
  decoder, given the frame, returns the value the encoder made it of (for values with
  nothing \<^verbatim>\<open>undefined\<close> in them). Then decoding what \<^verbatim>\<open>encodeMessage\<close> returns succeeds, and
  the result is the field \<open>t\<close> with the time of encoding, followed by the fields of the
  body: the same keys with the same values, whatever their order was.
\<close>

theorem encode_then_decode:
  assumes valid: "conforms MessageBodySchema (JObject body)"
    and defined: "plain (JObject body)"
    and encoded: "encodeMessage encode now body = Inr frame"
    and library: "\<And>v. plain v \<Longrightarrow> encode v = Inr frame \<Longrightarrow> decode frame = Inr v"
  shows "\<exists>message. decodeMessage decode frame = Inr (JObject ((''t'', JNumber now) # message))
           \<and> same_value (JObject message) (JObject body)"
proof -
  have no_t: "map_of body ''t'' = None"
    using body_has_no_time [OF valid] .
  then have absent: "''t'' \<notin> set (map fst body)"
    by (simp add: map_of_eq_None_iff)
  have stamped: "spread [(''t'', JNumber now)] body = (''t'', JNumber now) # body"
    using spread_time [OF no_t] .
  have "plain (JObject ((''t'', JNumber now) # body))"
    using defined absent by simp
  moreover have "encode (JObject ((''t'', JNumber now) # body)) = Inr frame"
    using encoded stamped by (simp add: encodeMessage_def)
  ultimately have sent: "decode frame = Inr (JObject ((''t'', JNumber now) # body))"
    by (rule library)
  obtain b where b: "parse MessageBodySchema (JObject body) = Inr b"
    and same: "same_value b (JObject body)"
    using conforms_parse [OF simple_MessageBodySchema valid] by blast
  have right: "parse MessageBodySchema (JObject ((''t'', JNumber now) # body)) = Inr b"
    using b parse_body_ignores_time by simp
  from parse_body [OF right] obtain message where msg: "b = JObject message"
    and clear: "map_of message ''t'' = None" by blast
  have left: "parse MessageMetaSchema (JObject ((''t'', JNumber now) # body))
      = Inr (JObject [(''t'', JNumber now)])"
    by (simp add: MessageMetaSchema_def)
  have "parse MessageSchema (JObject ((''t'', JNumber now) # body))
      = Inr (JObject ((''t'', JNumber now) # message))"
    using left right msg merge_meta [OF clear, of "JNumber now"]
    by (simp add: MessageSchema_def)
  then have "decodeMessage decode frame = Inr (JObject ((''t'', JNumber now) # message))"
    using sent by (simp add: decodeMessage_def)
  then show ?thesis using same msg by blast
qed

lemma state_body_valid: "conforms MessageBodySchema (JObject state_body)"
  by code_simp

lemma state_body_plain: "plain (JObject state_body)"
  by code_simp

lemma encode_state: "encodeMessage mp_encode 1700000000000 state_body = Inr state_frame"
  by code_simp

lemma decode_state:
  "decodeMessage mp_decode state_frame
     = Inr (JObject
         [(''t'', JNumber 1700000000000),
          (''id'', JString ''123e4567-e89b-12d3-a456-426614174000''),
          (''name'', JString ''alpha''),
          (''password'', JString ''secret''),
          (''users'',
           JArray [JObject [(''id'', JString ''00000000-0000-4000-8000-000000000001''),
                            (''name'', JString ''bob''), (''role'', JString ''host'')]]),
          (''m'', JString ''room::state/v1'')])"
  by code_simp

theorem encode_then_decode_witness:
  "conforms MessageBodySchema (JObject state_body)
   \<and> plain (JObject state_body)
   \<and> encodeMessage mp_encode 1700000000000 state_body = Inr state_frame
   \<and> (\<exists>message.
        decodeMessage mp_decode state_frame = Inr (JObject ((''t'', JNumber 1700000000000) # message))
        \<and> same_value (JObject message) (JObject state_body))
   \<and> decodeMessage mp_decode state_frame
       = Inr (JObject
           [(''t'', JNumber 1700000000000),
            (''id'', JString ''123e4567-e89b-12d3-a456-426614174000''),
            (''name'', JString ''alpha''),
            (''password'', JString ''secret''),
            (''users'',
             JArray [JObject [(''id'', JString ''00000000-0000-4000-8000-000000000001''),
                              (''name'', JString ''bob''), (''role'', JString ''host'')]]),
            (''m'', JString ''room::state/v1'')])"
proof -
  have library: "mp_decode state_frame = Inr v" if "plain v" and "mp_encode v = Inr state_frame"
    for v
    using mp_roundtrip [OF that] .
  have "\<exists>message.
      decodeMessage mp_decode state_frame = Inr (JObject ((''t'', JNumber 1700000000000) # message))
      \<and> same_value (JObject message) (JObject state_body)"
    using encode_then_decode
      [where body = state_body and encode = mp_encode and now = 1700000000000
         and frame = state_frame and decode = mp_decode,
       OF state_body_valid state_body_plain encode_state library]
    by simp
  then show ?thesis
    using state_body_valid state_body_plain encode_state decode_state by blast
qed

lemma login_body_valid: "conforms MessageBodySchema (JObject login_body)"
  by code_simp

lemma login_body_accepted:
  "parse MessageBodySchema (JObject login_body)
     = Inr (JObject [(''username'', JString ''bob''), (''api_key'', JUndefined),
                     (''m'', JString ''connection::login/v1'')])"
  by code_simp

lemma encode_login: "encodeMessage mp_encode 1700000000000 login_body = Inr login_frame"
  by code_simp

lemma decode_login: "decodeMessage mp_decode login_frame = Inl (ZodError invalid_type)"
  by code_simp

text \<open>
  Claim C2 as stated fails on a login body whose optional \<open>api_key\<close> is present and
  \<^verbatim>\<open>undefined\<close>. The body has the form of the login variant and the schema accepts it;
  MessagePack writes the field as nil and reads it back as \<^verbatim>\<open>null\<close>, which the optional
  string rejects: the encoder's own output fails to decode.
\<close>

theorem undefined_field_does_not_survive:
  "conforms MessageBodySchema (JObject login_body)
   \<and> parse MessageBodySchema (JObject login_body)
       = Inr (JObject [(''username'', JString ''bob''), (''api_key'', JUndefined),
                       (''m'', JString ''connection::login/v1'')])
   \<and> encodeMessage mp_encode 1700000000000 login_body = Inr login_frame
   \<and> decodeMessage mp_decode login_frame = Inl (ZodError invalid_type)"
  using login_body_valid login_body_accepted encode_login decode_login by simp

section \<open>Properties of the message channel\<close>

lemma on_ws_event_open:
  "isOpen (fst (on_ws_event decode ch ev)) = (isOpen ch \<and> \<not> is_closing ev)"
  by (cases ev)
     (simp_all add: on_ws_event_def on_message_def onClosed_def isOpen_def is_closing_def
        split: ws_data.splits sum.splits)

lemma on_ws_event_closed_count:
  "count_list (snd (on_ws_event decode ch ev)) DispatchClosed = (if is_closing ev then 1 else 0)"
  by (cases ev)
     (simp_all add: on_ws_event_def on_message_def onClosed_def is_closing_def
        split: ws_data.splits sum.splits)

lemma run_channel_open:
  "isOpen (fst (run_channel decode ch evs)) = (isOpen ch \<and> list_all (\<lambda>ev. \<not> is_closing ev) evs)"
proof (induction evs arbitrary: ch)
  case Nil
  show ?case by simp
next
  case (Cons ev evs)
  obtain ch' out where step: "on_ws_event decode ch ev = (ch', out)"
    by (cases "on_ws_event decode ch ev")
  obtain ch'' out' where rest: "run_channel decode ch' evs = (ch'', out')"
    by (cases "run_channel decode ch' evs")
  have "isOpen ch' = (isOpen ch \<and> \<not> is_closing ev)"
    using on_ws_event_open [of decode ch ev] step by simp
  moreover have "isOpen ch'' = (isOpen ch' \<and> list_all (\<lambda>ev. \<not> is_closing ev) evs)"
    using Cons.IH [of ch'] rest by simp
  ultimately show ?case
    using step rest by simp
qed

lemma run_channel_closed_count:
  "count_list (snd (run_channel decode ch evs)) DispatchClosed = length (filter is_closing evs)"
proof (induction evs arbitrary: ch)
  case Nil
  show ?case by simp
next
  case (Cons ev evs)
  obtain ch' out where step: "on_ws_event decode ch ev = (ch', out)"
    by (cases "on_ws_event decode ch ev")
  obtain ch'' out' where rest: "run_channel decode ch' evs = (ch'', out')"
    by (cases "run_channel decode ch' evs")
  have "count_list out DispatchClosed = (if is_closing ev then 1 else 0)"
    using on_ws_event_closed_count [of decode ch ev] step by simp
  moreover have "count_list out' DispatchClosed = length (filter is_closing evs)"
    using Cons.IH [of ch'] rest by simp
  ultimately show ?case
    using step rest by simp
qed


text \<open>
  Claim C5, as the source has it. Every socket error and every socket close runs
  \<^verbatim>\<open>onClosed\<close>, so the \<^verbatim>\<open>closed\<close> event is dispatched once for each of them in the
  sequence, not at most once. \<^verbatim>\<open>isOpen()\<close> holds after a sequence of socket events exactly
  when it held before and none of the events was an error or a close: it is true until the
  first of them, false from then on, and never true again.
\<close>

theorem closed_once_per_closing_event:
  "count_list (snd (run_channel decode ch evs)) DispatchClosed = length (filter is_closing evs)
   \<and> isOpen (fst (run_channel decode ch evs))
       = (isOpen ch \<and> list_all (\<lambda>ev. \<not> is_closing ev) evs)"
  using run_channel_closed_count [of decode ch evs] run_channel_open [of decode ch evs]
  by simp

theorem closed_once_per_closing_event_witness:
  "count_list (snd (run_channel (\<lambda>bs. Inl []) new_MessageChannel
       [WsMessage OtherData, WsClose, WsMessage OtherData])) DispatchClosed = 1
   \<and> \<not> isOpen (fst (run_channel (\<lambda>bs. Inl []) new_MessageChannel
       [WsMessage OtherData, WsClose, WsMessage OtherData]))"
  using closed_once_per_closing_event
    [of "\<lambda>bs. Inl []" new_MessageChannel "[WsMessage OtherData, WsClose, WsMessage OtherData]"]
  by (simp add: is_closing_def new_MessageChannel_def isOpen_def)

text \<open>
  Claim C5 as stated fails: a socket that reports an error and then closes makes the
  channel dispatch \<^verbatim>\<open>closed\<close> twice.
\<close>

theorem closed_fires_twice:
  "\<not> count_list (snd (run_channel (\<lambda>bs. Inl []) new_MessageChannel [WsError, WsClose]))
        DispatchClosed \<le> 1"
  by (simp add: on_ws_event_def onClosed_def new_MessageChannel_def)

text \<open>
  Claim C6. \<^verbatim>\<open>send\<close> never raises to its caller. When encoding or the socket's write
  throws, it logs and leaves: the channel is unchanged (in particular not closed) and
  nothing is written. When an inbound frame fails to decode, the listener logs and
  leaves: no \<^verbatim>\<open>message\<close> event is dispatched and the channel is unchanged.
\<close>

theorem per_message_errors_are_local:
  "(\<exists>r. send encode ws_send now ch body = Inr r)
   \<and> (\<forall>bs e. encodeMessage encode now body = Inr bs \<and> ws_send bs = Inl e
        \<longrightarrow> send encode ws_send now ch body
            = Inr (ch, [ChannelLogError ''Failed to send message: %s'']))
   \<and> (\<forall>e. encodeMessage encode now body = Inl e
        \<longrightarrow> send encode ws_send now ch body
            = Inr (ch, [ChannelLogError ''Failed to send message: %s'']))
   \<and> (\<forall>e. decodeMessage decode frame = Inl e
        \<longrightarrow> on_ws_event decode ch (WsMessage (Uint8Array frame))
            = (ch, [ChannelLogError ''Failed to decode received message: %s'']))"
  by (auto simp: send_def on_ws_event_def on_message_def split: sum.splits)

theorem per_message_errors_are_local_witness:
  "encodeMessage mp_encode 1700000000000 ping_body = Inr ping_frame
   \<and> send mp_encode (\<lambda>bs. Inl ''InvalidStateError'') 1700000000000 new_MessageChannel ping_body
       = Inr (new_MessageChannel, [ChannelLogError ''Failed to send message: %s''])
   \<and> encodeMessage (\<lambda>v. Inl ''Too deep objects'') 1700000000000 ping_body
       = Inl ''Too deep objects''
   \<and> send (\<lambda>v. Inl ''Too deep objects'') (\<lambda>bs. Inr ()) 1700000000000 new_MessageChannel
        ping_body
       = Inr (new_MessageChannel, [ChannelLogError ''Failed to send message: %s''])
   \<and> decodeMessage mp_decode [0xc1] = Inl (DecodeError ''Unrecognized type byte'')
   \<and> on_ws_event mp_decode new_MessageChannel (WsMessage (Uint8Array [0xc1]))
       = (new_MessageChannel, [ChannelLogError ''Failed to decode received message: %s''])"
proof -
  have thrown: "encodeMessage (\<lambda>v. Inl ''Too deep objects'') 1700000000000 ping_body
      = Inl ''Too deep objects''"
    by (simp add: encodeMessage_def)
  show ?thesis
    using encode_ping decode_reserved_byte thrown
      per_message_errors_are_local
        [of mp_encode "\<lambda>bs. Inl ''InvalidStateError''" 1700000000000 new_MessageChannel
            ping_body mp_decode "[0xc1]"]
      per_message_errors_are_local
        [of "\<lambda>v. Inl ''Too deep objects''" "\<lambda>bs. Inr ()" 1700000000000 new_MessageChannel
            ping_body mp_decode "[0xc1]"]
    by simp
qed

text \<open>
  Claim C9. A socket message whose payload is not a \<^verbatim>\<open>Uint8Array\<close> is logged and dropped,
  whatever the decoder would do with it: no \<^verbatim>\<open>message\<close> event, channel unchanged.
\<close>

theorem non_binary_payload_is_dropped:
  "(\<forall>bs. d \<noteq> Uint8Array bs)
   \<Longrightarrow> on_ws_event decode ch (WsMessage d)
       = (ch, [ChannelLogError ''Expected to receive a Uint8Array, but got %o''])"
  by (cases d) (simp_all add: on_ws_event_def on_message_def)

theorem non_binary_payload_is_dropped_witness:
  "(\<forall>bs. TextData ''hello'' \<noteq> Uint8Array bs)
   \<and> on_ws_event mp_decode new_MessageChannel (WsMessage (TextData ''hello''))
       = (new_MessageChannel, [ChannelLogError ''Expected to receive a Uint8Array, but got %o''])
   \<and> isOpen (fst (on_ws_event mp_decode new_MessageChannel (WsMessage (TextData ''hello''))))"
proof -
  have h: "\<forall>bs. TextData ''hello'' \<noteq> Uint8Array bs" by simp
  show ?thesis
    using h non_binary_payload_is_dropped [OF h, of mp_decode new_MessageChannel]
    by (simp add: isOpen_def new_MessageChannel_def)
qed

section \<open>Properties of the background script\<close>

lemma fresh_refs_initial: "fresh_refs initial_hub"
  by (simp add: fresh_refs_def initial_hub_def)

lemma fresh_refs_startSession: "fresh_refs (fst (startSession options h))"
  by (simp add: fresh_refs_def startSession_def stopSession_def Let_def split: option.splits)

lemma fresh_refs_tryEnsureSession:
  "fresh_refs h \<Longrightarrow> fresh_refs (fst (tryEnsureSession options h))"
  using fresh_refs_startSession
  by (simp add: tryEnsureSession_def startSessionFromOptions_def sendError_def)

lemma fresh_refs_createRoom: "fresh_refs h \<Longrightarrow> fresh_refs (fst (createRoom options called init h))"
  using fresh_refs_tryEnsureSession [of h options]
  by (auto simp: createRoom_def sendError_def fresh_refs_def
        split: prod.splits option.splits outcome.splits)

lemma fresh_refs_joinRoom:
  "fresh_refs h \<Longrightarrow> fresh_refs (fst (joinRoom options called room_id password h))"
  using fresh_refs_tryEnsureSession [of h options]
  by (auto simp: joinRoom_def sendError_def fresh_refs_def
        split: prod.splits option.splits outcome.splits)

lemma fresh_refs_leaveRoom: "fresh_refs h \<Longrightarrow> fresh_refs (fst (leaveRoom called h))"
  by (auto simp: leaveRoom_def sendError_def fresh_refs_def split: option.splits outcome.splits)

lemma fresh_refs_port_onMessage:
  "fresh_refs h \<Longrightarrow> fresh_refs (fst (port_onMessage options called p raw h))"
proof -
  assume fresh: "fresh_refs h"
  have "fst (port_onMessage options called p raw h)
      = (case raw of
           None \<Rightarrow> h
         | Some (JoinRoom room_id password) \<Rightarrow> fst (joinRoom options called room_id password h)
         | Some (CreateRoom name password) \<Rightarrow>
             fst (createRoom options called (RoomInit name password) h)
         | Some LeaveRoom \<Rightarrow> fst (leaveRoom called h)
         | Some other \<Rightarrow> h)"
    by (simp add: port_onMessage_def split: option.splits port_message.splits prod.splits)
  then show ?thesis
    using fresh fresh_refs_createRoom [OF fresh] fresh_refs_joinRoom [OF fresh]
      fresh_refs_leaveRoom [OF fresh]
    by (simp split: option.splits port_message.splits)
qed

text \<open>The update listener stays on a session that has been superseded: if that session
  dispatches \<^verbatim>\<open>update\<close> again, every listening port is posted the state of the session
  that is current now.\<close>

lemma superseded_session_still_heard:
  assumes "old \<in> set (session_listeners h)"
  shows "session_emits_update getState old (fst (startSession options h))
           = (fst (startSession options h),
              DispatchUpdate
              # map (\<lambda>p. PortPost p (SessionStateMsg (getState (next_ref h))))
                  (update_listeners h))"
  using assms
  by (simp add: session_emits_update_def onSessionUpdate_def startSession_def stopSession_def
        postSessionState_def getSessionState_def Let_def split: option.splits)

text \<open>
  Claim C3, as the source has it. Starting a session while \<open>old\<close> is current first asks
  \<open>old\<close> to close, once, and only then makes the new \<^verbatim>\<open>Session\<close> and stores it as the
  current one, in the same synchronous run; the update listener goes onto the new session.
\<close>

theorem startSession_closes_then_supersedes:
  assumes "session h = Some old" and "fresh_refs h"
  shows "snd (startSession options h)
           = [LogInfo ''Starting new session'',
              LogInfo ''Stopping current session: Superseded by another session'',
              SessionClose old ''Superseded by another session'',
              SessionNew (next_ref h) options,
              SessionAddUpdateListener (next_ref h)]
         \<and> length (filter (is_SessionClose old) (snd (startSession options h))) = 1
         \<and> before (SessionClose old ''Superseded by another session'')
              (SessionNew (next_ref h) options) (snd (startSession options h))
         \<and> session (fst (startSession options h)) = Some (next_ref h)
         \<and> next_ref h \<noteq> old"
  using assms
  by (simp add: startSession_def stopSession_def is_SessionClose_def fresh_refs_def Let_def)

theorem startSession_closes_then_supersedes_witness:
  "fresh_refs \<lparr>session = Some 0, next_ref = 1, update_listeners = [7], error_listeners = [7],
      session_listeners = [0]\<rparr>
   \<and> length (filter (is_SessionClose 0)
      (snd (startSession (SessionOptions ''bob'' ''wss://example.org'' None)
         \<lparr>session = Some 0, next_ref = 1, update_listeners = [7], error_listeners = [7],
          session_listeners = [0]\<rparr>))) = 1
   \<and> session (fst (startSession (SessionOptions ''bob'' ''wss://example.org'' None)
         \<lparr>session = Some 0, next_ref = 1, update_listeners = [7], error_listeners = [7],
          session_listeners = [0]\<rparr>)) = Some 1"
  using startSession_closes_then_supersedes
    [of "\<lparr>session = Some 0, next_ref = 1, update_listeners = [7], error_listeners = [7],
          session_listeners = [0]\<rparr>" 0 "SessionOptions ''bob'' ''wss://example.org'' None"]
  by (simp add: is_SessionClose_def fresh_refs_def)

text \<open>
  Claim C3 as stated fails on the order: the close of the old session is requested
  before the new session exists, not after the reference has been superseded.
\<close>

theorem teardown_requested_before_supersession:
  "\<not> before (SessionNew 1 (SessionOptions ''bob'' ''wss://example.org'' None))
       (SessionClose 0 ''Superseded by another session'')
       (snd (startSession (SessionOptions ''bob'' ''wss://example.org'' None)
          \<lparr>session = Some 0, next_ref = 1, update_listeners = [7], error_listeners = [7],
           session_listeners = [0]\<rparr>))
   \<and> before (SessionClose 0 ''Superseded by another session'')
       (SessionNew 1 (SessionOptions ''bob'' ''wss://example.org'' None))
       (snd (startSession (SessionOptions ''bob'' ''wss://example.org'' None)
          \<lparr>session = Some 0, next_ref = 1, update_listeners = [7], error_listeners = [7],
           session_listeners = [0]\<rparr>))
   \<and> session (fst (stopSession ''Superseded by another session''
          \<lparr>session = Some 0, next_ref = 1, update_listeners = [7], error_listeners = [7],
           session_listeners = [0]\<rparr>)) = Some 0"
  by (simp add: startSession_def stopSession_def Let_def)

text \<open>
  Claim C4 at the failing input. The listener of a port's messages has no case for
  \<^verbatim>\<open>get_session_state\<close>: the intent falls to the default branch, which logs a warning.
  Nothing is posted on the port and the script's state is unchanged. (Were the intent
  not in the extension's schema, the listener would log an error and post nothing
  either.) Connecting a port posts nothing as well: a port learns the state only from the
  next \<^verbatim>\<open>update\<close> event.
\<close>

theorem get_session_state_is_not_answered:
  "port_onMessage options called p (Some GetSessionState) h
     = (h, [LogDebug ''Received message from port'',
            LogWarning ''Received unexpected message from port''])
   \<and> port_onMessage options called p None h
     = (h, [LogError ''Received invalid message from port''])
   \<and> snd (onConnect p h) = [LogDebug ''Received port connection'']"
  by (simp add: port_onMessage_def onConnect_def)

lemma tryEnsureSession_cases:
  assumes "tryEnsureSession options h = (h1, ensured)" and "session h1 = Some s"
  shows "error_listeners h1 = error_listeners h \<and> filter is_DispatchError ensured = []"
  using assms
  by (auto simp: tryEnsureSession_def startSessionFromOptions_def startSession_def
        stopSession_def sendError_def is_DispatchError_def Let_def
      split: if_splits option.splits)

lemma error_report_once:
  "length (filter is_DispatchError (error_report message ports)) = 1"
  by (simp add: error_report_def is_DispatchError_def filter_map comp_def)

text \<open>
  Claim C7. When the \<^verbatim>\<open>Session\<close> method that \<^verbatim>\<open>createRoom\<close>, \<^verbatim>\<open>joinRoom\<close> or \<^verbatim>\<open>leaveRoom\<close>
  calls throws, the script does exactly this: after what getting hold of a session took
  and the call itself, it logs, dispatches one error event whose message names the
  operation and the error, posts that message as \<^verbatim>\<open>session_error\<close> on every port that
  listens, and forgets the session (\<^verbatim>\<open>session = null\<close>). No other error event is
  dispatched. In any state with no session, so in each of these three, the next
  \<^verbatim>\<open>createRoom\<close> or \<^verbatim>\<open>joinRoom\<close> under complete options begins by making a new session and
  calls the operation on it.
\<close>

theorem throwing_operation_invalidates_session:
  "(tryEnsureSession options h = (h1, ensured) \<and> session h1 = Some s \<longrightarrow>
      createRoom options (Throws e) init h
        = (h1\<lparr>session := None\<rparr>,
           ensured @ [SessionCreateRoom s init]
           @ error_report (''Failed to create room: '' @ error_text e) (error_listeners h))
      \<and> joinRoom options (Throws e) room_id password h
        = (h1\<lparr>session := None\<rparr>,
           ensured @ [SessionJoinRoom s room_id password]
           @ error_report (''Failed to join room: '' @ error_text e) (error_listeners h))
      \<and> length (filter is_DispatchError (snd (createRoom options (Throws e) init h))) = 1
      \<and> length (filter is_DispatchError (snd (joinRoom options (Throws e) room_id password h)))
          = 1)
   \<and> (session h = Some s \<longrightarrow>
      leaveRoom (Throws e) h
        = (h\<lparr>session := None\<rparr>,
           [SessionLeaveRoom s]
           @ error_report (''Failed to leave room: '' @ error_text e) (error_listeners h))
      \<and> length (filter is_DispatchError (snd (leaveRoom (Throws e) h))) = 1)
   \<and> (session h' = None \<and> \<not> falsy (username options') \<and> \<not> falsy (serverUrl options') \<longrightarrow>
      createRoom options' Returns init' h'
        = (h'\<lparr>session := Some (next_ref h'), next_ref := Suc (next_ref h'),
              session_listeners := session_listeners h' @ [next_ref h']\<rparr>,
           [LogInfo ''Starting new session'',
            SessionNew (next_ref h')
              (SessionOptions (the (username options')) (the (serverUrl options'))
                 (apiKey options')),
            SessionAddUpdateListener (next_ref h'),
            SessionCreateRoom (next_ref h') init'])
      \<and> joinRoom options' Returns room_id' password' h'
        = (h'\<lparr>session := Some (next_ref h'), next_ref := Suc (next_ref h'),
              session_listeners := session_listeners h' @ [next_ref h']\<rparr>,
           [LogInfo ''Starting new session'',
            SessionNew (next_ref h')
              (SessionOptions (the (username options')) (the (serverUrl options'))
                 (apiKey options')),
            SessionAddUpdateListener (next_ref h'),
            SessionJoinRoom (next_ref h') room_id' password']))"
proof -
  have thrown: "createRoom options (Throws e) init h
        = (h1\<lparr>session := None\<rparr>,
           ensured @ [SessionCreateRoom s init]
           @ error_report (''Failed to create room: '' @ error_text e) (error_listeners h))
      \<and> joinRoom options (Throws e) room_id password h
        = (h1\<lparr>session := None\<rparr>,
           ensured @ [SessionJoinRoom s room_id password]
           @ error_report (''Failed to join room: '' @ error_text e) (error_listeners h))
      \<and> length (filter is_DispatchError (snd (createRoom options (Throws e) init h))) = 1
      \<and> length (filter is_DispatchError (snd (joinRoom options (Throws e) room_id password h)))
          = 1"
    if ensured: "tryEnsureSession options h = (h1, ensured)" and current: "session h1 = Some s"
  proof -
    have same: "error_listeners h1 = error_listeners h"
      and quiet: "filter is_DispatchError ensured = []"
      using tryEnsureSession_cases [OF ensured current] by simp_all
    have create: "createRoom options (Throws e) init h
        = (h1\<lparr>session := None\<rparr>,
           ensured @ [SessionCreateRoom s init]
           @ error_report (''Failed to create room: '' @ error_text e) (error_listeners h))"
      using ensured current same
      by (simp add: createRoom_def sendError_def error_report_def postSessionError_def)
    have join: "joinRoom options (Throws e) room_id password h
        = (h1\<lparr>session := None\<rparr>,
           ensured @ [SessionJoinRoom s room_id password]
           @ error_report (''Failed to join room: '' @ error_text e) (error_listeners h))"
      using ensured current same
      by (simp add: joinRoom_def sendError_def error_report_def postSessionError_def)
    show ?thesis
      using quiet error_report_once
      by (simp add: create join is_DispatchError_def)
  qed
  have left: "leaveRoom (Throws e) h
        = (h\<lparr>session := None\<rparr>,
           [SessionLeaveRoom s]
           @ error_report (''Failed to leave room: '' @ error_text e) (error_listeners h))
      \<and> length (filter is_DispatchError (snd (leaveRoom (Throws e) h))) = 1"
    if "session h = Some s"
  proof -
    have leave: "leaveRoom (Throws e) h
        = (h\<lparr>session := None\<rparr>,
           [SessionLeaveRoom s]
           @ error_report (''Failed to leave room: '' @ error_text e) (error_listeners h))"
      using that
      by (simp add: leaveRoom_def sendError_def error_report_def postSessionError_def)
    show ?thesis
      using error_report_once by (simp add: leave is_DispatchError_def)
  qed
  have fresh: "createRoom options' Returns init' h'
        = (h'\<lparr>session := Some (next_ref h'), next_ref := Suc (next_ref h'),
              session_listeners := session_listeners h' @ [next_ref h']\<rparr>,
           [LogInfo ''Starting new session'',
            SessionNew (next_ref h')
              (SessionOptions (the (username options')) (the (serverUrl options'))
                 (apiKey options')),
            SessionAddUpdateListener (next_ref h'),
            SessionCreateRoom (next_ref h') init'])
      \<and> joinRoom options' Returns room_id' password' h'
        = (h'\<lparr>session := Some (next_ref h'), next_ref := Suc (next_ref h'),
              session_listeners := session_listeners h' @ [next_ref h']\<rparr>,
           [LogInfo ''Starting new session'',
            SessionNew (next_ref h')
              (SessionOptions (the (username options')) (the (serverUrl options'))
                 (apiKey options')),
            SessionAddUpdateListener (next_ref h'),
            SessionJoinRoom (next_ref h') room_id' password'])"
    if "session h' = None" and "\<not> falsy (username options')" and "\<not> falsy (serverUrl options')"
    using that
    by (simp add: createRoom_def joinRoom_def tryEnsureSession_def startSessionFromOptions_def
          startSession_def stopSession_def Let_def)
  show ?thesis
    using thrown left fresh by blast
qed

theorem throwing_operation_invalidates_session_witness:
  "tryEnsureSession \<lparr>username = None, serverUrl = None, apiKey = None\<rparr>
      \<lparr>session = Some 0, next_ref = 1, update_listeners = [7], error_listeners = [7, 8],
       session_listeners = [0]\<rparr>
     = (\<lparr>session = Some 0, next_ref = 1, update_listeners = [7], error_listeners = [7, 8],
         session_listeners = [0]\<rparr>, [])
   \<and> createRoom \<lparr>username = None, serverUrl = None, apiKey = None\<rparr>
        (Throws (Some ''Error: channel closed'')) (RoomInit ''alpha'' ''secret'')
        \<lparr>session = Some 0, next_ref = 1, update_listeners = [7], error_listeners = [7, 8],
         session_listeners = [0]\<rparr>
     = (\<lparr>session = None, next_ref = 1, update_listeners = [7], error_listeners = [7, 8],
         session_listeners = [0]\<rparr>,
        [SessionCreateRoom 0 (RoomInit ''alpha'' ''secret''),
         LogError ''Session error: Failed to create room: Error: channel closed'',
         DispatchError ''Failed to create room: Error: channel closed'',
         PortPost 7 (SessionErrorMsg ''Failed to create room: Error: channel closed''),
         PortPost 8 (SessionErrorMsg ''Failed to create room: Error: channel closed'')])
   \<and> joinRoom \<lparr>username = None, serverUrl = None, apiKey = None\<rparr>
        (Throws (Some ''Error: channel closed'')) ''123e4567-e89b-12d3-a456-426614174000''
        ''secret''
        \<lparr>session = Some 0, next_ref = 1, update_listeners = [7], error_listeners = [7, 8],
         session_listeners = [0]\<rparr>
     = (\<lparr>session = None, next_ref = 1, update_listeners = [7], error_listeners = [7, 8],
         session_listeners = [0]\<rparr>,
        [SessionJoinRoom 0 ''123e4567-e89b-12d3-a456-426614174000'' ''secret'',
         LogError ''Session error: Failed to join room: Error: channel closed'',
         DispatchError ''Failed to join room: Error: channel closed'',
         PortPost 7 (SessionErrorMsg ''Failed to join room: Error: channel closed''),
         PortPost 8 (SessionErrorMsg ''Failed to join room: Error: channel closed'')])
   \<and> leaveRoom (Throws None)
        \<lparr>session = Some 0, next_ref = 1, update_listeners = [7], error_listeners = [7, 8],
         session_listeners = [0]\<rparr>
     = (\<lparr>session = None, next_ref = 1, update_listeners = [7], error_listeners = [7, 8],
         session_listeners = [0]\<rparr>,
        [SessionLeaveRoom 0,
         LogError ''Session error: Failed to leave room: unknown error'',
         DispatchError ''Failed to leave room: unknown error'',
         PortPost 7 (SessionErrorMsg ''Failed to leave room: unknown error''),
         PortPost 8 (SessionErrorMsg ''Failed to leave room: unknown error'')])
   \<and> createRoom \<lparr>username = Some ''bob'', serverUrl = Some ''wss://example.org'', apiKey = None\<rparr>
        Returns (RoomInit ''alpha'' ''secret'')
        \<lparr>session = None, next_ref = 1, update_listeners = [7], error_listeners = [7, 8],
         session_listeners = [0]\<rparr>
     = (\<lparr>session = Some 1, next_ref = 2, update_listeners = [7], error_listeners = [7, 8],
         session_listeners = [0, 1]\<rparr>,
        [LogInfo ''Starting new session'',
         SessionNew 1 (SessionOptions ''bob'' ''wss://example.org'' None),
         SessionAddUpdateListener 1,
         SessionCreateRoom 1 (RoomInit ''alpha'' ''secret'')])"
proof -
  let ?h = "\<lparr>session = Some 0, next_ref = 1, update_listeners = [7], error_listeners = [7, 8],
             session_listeners = [0]\<rparr>"
  let ?h' = "\<lparr>session = None, next_ref = 1, update_listeners = [7], error_listeners = [7, 8],
              session_listeners = [0]\<rparr>"
  let ?none = "\<lparr>username = None, serverUrl = None, apiKey = None\<rparr>"
  let ?bob = "\<lparr>username = Some ''bob'', serverUrl = Some ''wss://example.org'', apiKey = None\<rparr>"
  have ensured: "tryEnsureSession ?none ?h = (?h, [])"
    by (simp add: tryEnsureSession_def)
  have current: "session ?h = Some 0"
    by simp
  have gone: "session ?h' = None"
    by simp
  have complete: "\<not> falsy (username ?bob)" "\<not> falsy (serverUrl ?bob)"
    by (simp_all add: falsy_def)
  show ?thesis
    using ensured current gone complete
      throwing_operation_invalidates_session
        [where options = ?none and h = ?h and ?h1.0 = ?h and ensured = "[]" and s = 0
           and e = "Some ''Error: channel closed''" and init = "RoomInit ''alpha'' ''secret''"
           and room_id = "''123e4567-e89b-12d3-a456-426614174000''" and password = "''secret''"
           and h' = ?h' and options' = ?bob and init' = "RoomInit ''alpha'' ''secret''"]
      throwing_operation_invalidates_session
        [where h = ?h and s = 0 and e = None and h' = ?h' and options' = ?bob]
    by (simp add: error_report_def error_text_def)
qed

text \<open>
  Claim C8, as the source has it. The options are read only when no session is current.
  Then, if the username or the server URL is missing or empty, \<^verbatim>\<open>createRoom\<close> and
  \<^verbatim>\<open>joinRoom\<close> make no session and call none: they log, dispatch one error event with
  the readable message, post it to every listening port, and leave the state as it was.
\<close>

theorem incomplete_options_without_session:
  assumes "session h = None"
    and "falsy (username options) \<or> falsy (serverUrl options)"
  shows "createRoom options called init h
           = (h, [LogError ''Failed to start session: Options is incomplete'',
                  LogError (''Session error: '' @ incomplete_options_message),
                  DispatchError incomplete_options_message]
                 @ map (\<lambda>p. PortPost p (SessionErrorMsg incomplete_options_message))
                     (error_listeners h))
         \<and> joinRoom options called room_id password h = createRoom options called init h
         \<and> filter is_session_effect (snd (createRoom options called init h)) = []
         \<and> length (filter is_DispatchError (snd (createRoom options called init h))) = 1"
proof -
  have ensure: "tryEnsureSession options h
      = (h, [LogError ''Failed to start session: Options is incomplete'',
             LogError (''Session error: '' @ incomplete_options_message),
             DispatchError incomplete_options_message]
            @ map (\<lambda>p. PortPost p (SessionErrorMsg incomplete_options_message))
                (error_listeners h))"
    using assms
    by (simp add: tryEnsureSession_def startSessionFromOptions_def sendError_def
          postSessionError_def)
  have create: "createRoom options called init h = tryEnsureSession options h"
    using assms(1) by (simp add: createRoom_def ensure)
  have join: "joinRoom options called room_id password h = tryEnsureSession options h"
    using assms(1) by (simp add: joinRoom_def ensure)
  have quiet: "filter is_session_effect (snd (tryEnsureSession options h)) = []"
    by (simp add: ensure is_session_effect_def filter_map comp_def)
  have once: "length (filter is_DispatchError (snd (tryEnsureSession options h))) = 1"
    by (simp add: ensure is_DispatchError_def filter_map comp_def)
  show ?thesis
    using create join quiet once ensure by simp
qed

theorem incomplete_options_without_session_witness:
  "session \<lparr>session = None, next_ref = 0, update_listeners = [7], error_listeners = [7],
      session_listeners = []\<rparr> = None
   \<and> (falsy (username \<lparr>username = Some [], serverUrl = Some ''wss://example.org'',
                        apiKey = None\<rparr>)
      \<or> falsy (serverUrl \<lparr>username = Some [], serverUrl = Some ''wss://example.org'',
                           apiKey = None\<rparr>))
   \<and> createRoom \<lparr>username = Some [], serverUrl = Some ''wss://example.org'', apiKey = None\<rparr>
        Returns (RoomInit ''alpha'' ''secret'')
        \<lparr>session = None, next_ref = 0, update_listeners = [7], error_listeners = [7],
         session_listeners = []\<rparr>
      = (\<lparr>session = None, next_ref = 0, update_listeners = [7], error_listeners = [7],
          session_listeners = []\<rparr>,
         [LogError ''Failed to start session: Options is incomplete'',
          LogError (''Session error: '' @ incomplete_options_message),
          DispatchError incomplete_options_message,
          PortPost 7 (SessionErrorMsg incomplete_options_message)])"
proof -
  let ?h = "\<lparr>session = None, next_ref = 0, update_listeners = [7], error_listeners = [7],
             session_listeners = []\<rparr>"
  let ?o = "\<lparr>username = Some [], serverUrl = Some ''wss://example.org'', apiKey = None\<rparr>"
  have none: "session ?h = None"
    by simp
  have incomplete: "falsy (username ?o) \<or> falsy (serverUrl ?o)"
    by (simp add: falsy_def)
  show ?thesis
    using none incomplete
      incomplete_options_without_session
        [OF none incomplete, of Returns "RoomInit ''alpha'' ''secret''"]
    by simp
qed

text \<open>
  Claim C8 as stated fails when a session is current: the options are not consulted,
  the room is created on the existing session, and no error is reported.
\<close>

theorem incomplete_options_with_session:
  "falsy (username \<lparr>username = None, serverUrl = None, apiKey = None\<rparr>)
   \<and> createRoom \<lparr>username = None, serverUrl = None, apiKey = None\<rparr> Returns
        (RoomInit ''alpha'' ''secret'')
        \<lparr>session = Some 0, next_ref = 1, update_listeners = [7], error_listeners = [7],
         session_listeners = [0]\<rparr>
      = (\<lparr>session = Some 0, next_ref = 1, update_listeners = [7], error_listeners = [7],
          session_listeners = [0]\<rparr>,
         [SessionCreateRoom 0 (RoomInit ''alpha'' ''secret'')])"
  by (simp add: createRoom_def tryEnsureSession_def falsy_def)

text \<open>
  Claim C10. With no current session, \<^verbatim>\<open>leaveRoom\<close> does nothing at all: the state is
  the same and there is no effect, so no session is made, no \<^verbatim>\<open>Session\<close> method is called
  and no error event is dispatched.
\<close>

theorem leaveRoom_without_session:
  "session h = None \<Longrightarrow> leaveRoom called h = (h, [])"
  by (simp add: leaveRoom_def)

theorem leaveRoom_without_session_witness:
  "session \<lparr>session = None, next_ref = 3, update_listeners = [7], error_listeners = [7],
      session_listeners = [0, 1, 2]\<rparr> = None
   \<and> leaveRoom (Throws (Some ''never called''))
        \<lparr>session = None, next_ref = 3, update_listeners = [7], error_listeners = [7],
         session_listeners = [0, 1, 2]\<rparr>
      = (\<lparr>session = None, next_ref = 3, update_listeners = [7], error_listeners = [7],
          session_listeners = [0, 1, 2]\<rparr>, [])"
proof -
  let ?h = "\<lparr>session = None, next_ref = 3, update_listeners = [7], error_listeners = [7],
             session_listeners = [0, 1, 2]\<rparr>"
  have none: "session ?h = None"
    by simp
  show ?thesis
    using none leaveRoom_without_session [OF none, of "Throws (Some ''never called'')"]
    by simp
qed

end
